theory Spec2Isabelle
  imports Main "HOL-Library.Multiset" "HOL-Library.Product_Lexorder"
begin

section \<open>The whisper board of \<^verbatim>\<open>src/backend/server.js\<close>\<close>

text \<open>
  The server keeps three MongoDB collections (users, posts, replies) and answers HTTP
  requests over them. The collections are modelled as lists of records in insertion
  order, every handler as a function from the store to an outcome and the new store.
  Numbers that the server only ever counts with are integers, dates are integers
  (milliseconds), ObjectIds are natural numbers handed out by a counter of the store.
  Strings are lists of 8-bit characters, the UTF-8 bytes of the text.
  \<^verbatim>\<open>String.prototype.toLowerCase\<close> is a built-in of the JavaScript engine and not code
  of the repository: it is a parameter of every function that uses it, so that what is
  proved holds for every lowercasing, the engine's Unicode-aware one among them.
  Request fields (\<^verbatim>\<open>req.body\<close>, \<^verbatim>\<open>req.query\<close>, the key header) are
  \<open>string option\<close>, \<open>None\<close> for a field that is not there; JSON values that are not
  strings, and ids that are not well-formed ObjectIds, are decided by Mongoose and
  Express and are left out.
\<close>

subsection \<open>Schemas\<close>

record user =
  u_deviceToken :: string
  u_lightPoints :: int
  u_isBanned :: bool
  u_createdAt :: int

record post =
  p_id :: nat
  p_mood :: string
  p_text :: string
  p_room :: string
  p_authorToken :: string
  p_status :: string
  p_reports :: int
  p_replyCount :: int
  p_createdAt :: int

record reply =
  r_id :: nat
  r_postId :: nat
  r_text :: string
  r_responderToken :: string
  r_isAuthorReply :: bool
  r_status :: string
  r_reports :: int
  r_createdAt :: int

record db =
  users :: "user list"
  posts :: "post list"
  replies :: "reply list"
  next_id :: nat

definition empty_db :: db where
  "empty_db = \<lparr>users = [], posts = [], replies = [], next_id = 0\<rparr>"

subsection \<open>Outcomes of a request\<close>

datatype js_error = TypeError

datatype body =
    ErrorBody string
  | PointsBody int
  | PostBody post
  | SuccessBody
  | ShadowBody
  | MessageBody string
  | RoomBody "(post \<times> reply list) list" "(post \<times> reply list) list"
  | DashboardBody "post list" "reply list"
  | NoBody

type_synonym response = "nat \<times> body"

text \<open>
  A handler either sends a response or throws (\<open>Inl\<close>); \<^verbatim>\<open>server.js\<close> has no
  \<^verbatim>\<open>try\<close> and no error handler, so a throw is the outcome of the request.
\<close>

type_synonym outcome = "js_error + response"

subsection \<open>Store operations (Mongoose queries)\<close>

text \<open>\<^verbatim>\<open>findOneAndUpdate\<close>: the first document that matches is updated, no other.\<close>

fun findOneAndUpdate :: "('a \<Rightarrow> bool) \<Rightarrow> ('a \<Rightarrow> 'a) \<Rightarrow> 'a list \<Rightarrow> 'a list" where
  "findOneAndUpdate P f [] = []"
| "findOneAndUpdate P f (x # xs) =
     (if P x then f x # xs else x # findOneAndUpdate P f xs)"

text \<open>\<^verbatim>\<open>updateMany\<close>: every document that matches is updated.\<close>

definition updateMany :: "('a \<Rightarrow> bool) \<Rightarrow> ('a \<Rightarrow> 'a) \<Rightarrow> 'a list \<Rightarrow> 'a list" where
  "updateMany P f xs = map (\<lambda>x. if P x then f x else x) xs"

definition findPost :: "nat \<Rightarrow> post list \<Rightarrow> post option" where
  "findPost i ps = find (\<lambda>p. p_id p = i) ps"

definition findReply :: "nat \<Rightarrow> reply list \<Rightarrow> reply option" where
  "findReply i rs = find (\<lambda>r. r_id r = i) rs"

definition findUser :: "string \<Rightarrow> user list \<Rightarrow> user option" where
  "findUser k us = find (\<lambda>u. u_deviceToken u = k) us"

definition incLightPoints :: "string \<Rightarrow> int \<Rightarrow> user list \<Rightarrow> user list" where
  "incLightPoints k n us =
     findOneAndUpdate (\<lambda>u. u_deviceToken u = k) (\<lambda>u. u\<lparr>u_lightPoints := u_lightPoints u + n\<rparr>) us"

subsection \<open>The key pattern\<close>

text \<open>
  \<^verbatim>\<open>/^VOID-[A-Z0-9]{4}-[A-Z0-9]{4}-[A-Z0-9]{4}$/\<close>: a sequence of literal characters and
  character classes, matched against the whole string.
\<close>

datatype tok = Lit char | UpperAlnum

definition upper_alnum :: "char \<Rightarrow> bool" where
  "upper_alnum c =
     (let n = (of_char c :: nat) in (65 \<le> n \<and> n \<le> 90) \<or> (48 \<le> n \<and> n \<le> 57))"

fun tok_ok :: "tok \<Rightarrow> char \<Rightarrow> bool" where
  "tok_ok (Lit d) c = (c = d)"
| "tok_ok UpperAlnum c = upper_alnum c"

fun matches :: "tok list \<Rightarrow> string \<Rightarrow> bool" where
  "matches [] [] = True"
| "matches (t # ts) (c # cs) = (tok_ok t c \<and> matches ts cs)"
| "matches _ _ = False"

definition keyPattern :: "tok list" where
  "keyPattern =
     map Lit ''VOID-'' @ replicate 4 UpperAlnum @ [Lit (CHR ''-'')] @
     replicate 4 UpperAlnum @ [Lit (CHR ''-'')] @ replicate 4 UpperAlnum"

definition keyPattern_test :: "string \<Rightarrow> bool" where
  "keyPattern_test k = matches keyPattern k"

text \<open>
  The pattern in the words of the specification: the prefix, then three groups of four
  uppercase alphanumerics, separated by dashes.
\<close>

definition key_group :: "string \<Rightarrow> bool" where
  "key_group g = (length g = 4 \<and> list_all upper_alnum g)"

definition well_formed_key :: "string \<Rightarrow> bool" where
  "well_formed_key k =
     (\<exists>g1 g2 g3. k = ''VOID-'' @ g1 @ ''-'' @ g2 @ ''-'' @ g3 \<and>
        key_group g1 \<and> key_group g2 \<and> key_group g3)"

subsection \<open>The middleware \<^verbatim>\<open>authUser\<close>\<close>

text \<open>
  \<open>Inl\<close> is the response the middleware sends itself, \<open>Inr\<close> the user it puts on the
  request before calling \<^verbatim>\<open>next()\<close>. \<open>now\<close> is what \<^verbatim>\<open>Date.now\<close> returns.
\<close>

definition authUser :: "int \<Rightarrow> string option \<Rightarrow> db \<Rightarrow> (response + user) \<times> db" where
  "authUser now voidKey s =
     (case voidKey of
        None \<Rightarrow> (Inl (401, ErrorBody ''Missing Void Key''), s)
      | Some k \<Rightarrow>
          if k = [] then (Inl (401, ErrorBody ''Missing Void Key''), s)
          else if \<not> keyPattern_test k then
            (Inl (401, ErrorBody ''Invalid Key Format. Access Denied.''), s)
          else
            let (usr, s') =
              (case findUser k (users s) of
                 Some u \<Rightarrow> (u, s)
               | None \<Rightarrow>
                   (let u = \<lparr>u_deviceToken = k, u_lightPoints = 0, u_isBanned = False,
                              u_createdAt = now\<rparr>
                    in (u, s\<lparr>users := users s @ [u]\<rparr>)))
            in if u_isBanned usr then (Inl (200, ShadowBody), s') else (Inr usr, s'))"

subsection \<open>Moderation\<close>

text \<open>
  What \<^verbatim>\<open>toLowerCase\<close> does to text of the ASCII range: the letters A to Z become a
  to z, every other character stays. On other text the built-in does more (the Kelvin
  sign U+212A becomes k), which is why it is a parameter below.
\<close>

definition ascii_text :: "string \<Rightarrow> bool" where
  "ascii_text s = list_all (\<lambda>c. (of_char c :: nat) < 128) s"

definition toLowerCase_ascii_char :: "char \<Rightarrow> char" where
  "toLowerCase_ascii_char c =
     (let n = (of_char c :: nat) in if 65 \<le> n \<and> n \<le> 90 then char_of (n + 32) else c)"

definition toLowerCase_ascii :: "string \<Rightarrow> string" where
  "toLowerCase_ascii s = map toLowerCase_ascii_char s"

text \<open>\<^verbatim>\<open>String.prototype.includes\<close>: the word occurs at some position of the string.\<close>

fun includes_str :: "string \<Rightarrow> string \<Rightarrow> bool" where
  "includes_str [] w = (w = [])"
| "includes_str (c # cs) w = (take (length w) (c # cs) = w \<or> includes_str cs w)"

definition prohibited :: "string list" where
  "prohibited = [''suicide'', ''kill myself'', ''die'', ''murder'', ''hate you'']"

definition moderateText :: "(string \<Rightarrow> string) \<Rightarrow> string \<Rightarrow> bool" where
  "moderateText toLowerCase text =
     (\<not> list_ex (\<lambda>word. includes_str (toLowerCase text) word) prohibited)"

text \<open>Containing a substring, as the specification says it.\<close>

definition contains_substring :: "string \<Rightarrow> string \<Rightarrow> bool" where
  "contains_substring s w = (\<exists>before after. s = before @ w @ after)"

subsection \<open>\<^verbatim>\<open>GET /api/me\<close>\<close>

definition getMe :: "user \<Rightarrow> db \<Rightarrow> outcome \<times> db" where
  "getMe usr s = (Inr (200, PointsBody (u_lightPoints usr)), s)"

subsection \<open>\<^verbatim>\<open>POST /api/post\<close>\<close>

definition validRooms :: "string list" where
  "validRooms = [''general'', ''love'', ''work'', ''family'', ''life'']"

definition assignedRoom :: "string option \<Rightarrow> string" where
  "assignedRoom room =
     (case room of
        Some r \<Rightarrow> if r \<in> set validRooms then r else ''general''
      | None \<Rightarrow> ''general'')"

fun createPost ::
  "(string \<Rightarrow> string) \<Rightarrow> int \<Rightarrow> user \<Rightarrow> string option \<Rightarrow> string option \<Rightarrow> string option \<Rightarrow>
     db \<Rightarrow> outcome \<times> db"
where
  "createPost toLowerCase now usr (Some mood) (Some text) room s =
     (if mood = [] \<or> text = [] then (Inr (400, ErrorBody ''Empty fields''), s)
      else if \<not> moderateText toLowerCase text then (Inr (400, ErrorBody ''Harmful content detected''), s)
      else
        let p = \<lparr>p_id = next_id s, p_mood = mood, p_text = text, p_room = assignedRoom room,
                 p_authorToken = u_deviceToken usr, p_status = ''active'', p_reports = 0,
                 p_replyCount = 0, p_createdAt = now\<rparr>;
            s1 = s\<lparr>posts := posts s @ [p], next_id := Suc (next_id s)\<rparr>;
            s2 = s1\<lparr>users := incLightPoints (u_deviceToken usr) 1 (users s1)\<rparr>
        in (Inr (201, PostBody p), s2))"
| "createPost toLowerCase now usr _ _ room s = (Inr (400, ErrorBody ''Empty fields''), s)"

subsection \<open>\<^verbatim>\<open>GET /api/post/random\<close>\<close>

text \<open>The room that the match stage constrains, if any: \<^verbatim>\<open>room && room !== 'all'\<close>.\<close>

definition roomCondition :: "string option \<Rightarrow> string option" where
  "roomCondition room =
     (case room of
        None \<Rightarrow> None
      | Some r \<Rightarrow> if r \<noteq> [] \<and> r \<noteq> ''all'' then Some r else None)"

definition matchStage :: "string \<Rightarrow> string option \<Rightarrow> post \<Rightarrow> bool" where
  "matchStage token room p =
     (p_status p = ''active'' \<and> p_reports p < 3 \<and> p_authorToken p \<noteq> token \<and>
      (case roomCondition room of None \<Rightarrow> True | Some r \<Rightarrow> p_room p = r))"

text \<open>\<^verbatim>\<open>{ $sort: { replyCount: 1, createdAt: -1 } }\<close> as a sort on a lexicographic key.\<close>

definition sortKey :: "post \<Rightarrow> int \<times> int" where
  "sortKey p = (p_replyCount p, - p_createdAt p)"

definition candidates :: "string \<Rightarrow> string option \<Rightarrow> post list \<Rightarrow> post list" where
  "candidates token room ps = filter (matchStage token room) ps"

definition pool :: "string \<Rightarrow> string option \<Rightarrow> post list \<Rightarrow> post list" where
  "pool token room ps = take 50 (sort_key sortKey (candidates token room ps))"

text \<open>
  \<^verbatim>\<open>{ $sample: { size: 1 } }\<close>: one document of the input, chosen at random; \<open>rnd\<close> is
  the random choice.
\<close>

definition sample1 :: "nat \<Rightarrow> 'a list \<Rightarrow> 'a list" where
  "sample1 rnd xs = (if xs = [] then [] else [xs ! (rnd mod length xs)])"

definition aggregate :: "nat \<Rightarrow> string \<Rightarrow> string option \<Rightarrow> post list \<Rightarrow> post list" where
  "aggregate rnd token room ps = sample1 rnd (pool token room ps)"

definition getRandom :: "nat \<Rightarrow> user \<Rightarrow> string option \<Rightarrow> db \<Rightarrow> outcome \<times> db" where
  "getRandom rnd usr room s =
     (case aggregate rnd (u_deviceToken usr) room (posts s) of
        [] \<Rightarrow> (Inr (204, NoBody), s)
      | p # _ \<Rightarrow> (Inr (200, PostBody p), s))"

text \<open>The order of the specification: fewer replies first, among equals the newer first.\<close>

definition comes_before :: "post \<Rightarrow> post \<Rightarrow> bool" where
  "comes_before p q =
     (p_replyCount p < p_replyCount q \<or>
      (p_replyCount p = p_replyCount q \<and> p_createdAt q \<le> p_createdAt p))"

subsection \<open>\<^verbatim>\<open>POST /api/reply\<close>\<close>

fun createReply ::
  "int \<Rightarrow> user \<Rightarrow> nat option \<Rightarrow> string option \<Rightarrow> db \<Rightarrow> outcome \<times> db"
where
  "createReply now usr (Some postId) (Some text) s =
     (if text = [] then (Inr (400, ErrorBody ''Missing data''), s)
      else case findPost postId (posts s) of
        None \<Rightarrow> (Inr (404, ErrorBody ''Not found''), s)
      | Some p \<Rightarrow>
          let isAuthor = (p_authorToken p = u_deviceToken usr);
              r = \<lparr>r_id = next_id s, r_postId = postId, r_text = text,
                   r_responderToken = u_deviceToken usr, r_isAuthorReply = isAuthor,
                   r_status = ''visible'', r_reports = 0, r_createdAt = now\<rparr>;
              s1 = s\<lparr>replies := replies s @ [r], next_id := Suc (next_id s)\<rparr>;
              s2 = s1\<lparr>posts := findOneAndUpdate (\<lambda>q. p_id q = postId)
                                   (\<lambda>q. q\<lparr>p_replyCount := p_replyCount q + 1\<rparr>) (posts s1)\<rparr>;
              s3 = s2\<lparr>users := incLightPoints (u_deviceToken usr) 5 (users s2)\<rparr>
          in (Inr (200, SuccessBody), s3))"
| "createReply now usr _ _ s = (Inr (400, ErrorBody ''Missing data''), s)"

subsection \<open>\<^verbatim>\<open>POST /api/report\<close>\<close>

text \<open>
  \<^verbatim>\<open>findByIdAndUpdate(id, { $inc: { reports: 1 } }, { new: true })\<close> returns the updated
  document, or \<^verbatim>\<open>null\<close> when no document has the id; reading \<^verbatim>\<open>.reports\<close> of
  \<^verbatim>\<open>null\<close> throws a TypeError.
\<close>

definition reportPost :: "nat \<Rightarrow> db \<Rightarrow> outcome \<times> db" where
  "reportPost i s =
     (let ps1 = findOneAndUpdate (\<lambda>q. p_id q = i)
                  (\<lambda>q. q\<lparr>p_reports := p_reports q + 1\<rparr>) (posts s)
      in case findPost i ps1 of
           None \<Rightarrow> (Inl TypeError, s\<lparr>posts := ps1\<rparr>)
         | Some p \<Rightarrow>
             let ps2 = (if 3 \<le> p_reports p
                        then findOneAndUpdate (\<lambda>q. p_id q = i)
                               (\<lambda>q. q\<lparr>p_status := ''hidden''\<rparr>) ps1
                        else ps1)
             in (Inr (200, MessageBody ''Reported.''), s\<lparr>posts := ps2\<rparr>))"

definition reportReply :: "nat \<Rightarrow> db \<Rightarrow> outcome \<times> db" where
  "reportReply i s =
     (let rs1 = findOneAndUpdate (\<lambda>q. r_id q = i)
                  (\<lambda>q. q\<lparr>r_reports := r_reports q + 1\<rparr>) (replies s)
      in case findReply i rs1 of
           None \<Rightarrow> (Inl TypeError, s\<lparr>replies := rs1\<rparr>)
         | Some r \<Rightarrow>
             let rs2 = (if 3 \<le> r_reports r
                        then findOneAndUpdate (\<lambda>q. r_id q = i)
                               (\<lambda>q. q\<lparr>r_status := ''hidden''\<rparr>) rs1
                        else rs1)
             in (Inr (200, MessageBody ''Reported.''), s\<lparr>replies := rs2\<rparr>))"

definition report :: "user \<Rightarrow> string option \<Rightarrow> nat \<Rightarrow> db \<Rightarrow> outcome \<times> db" where
  "report usr type i s = (if type = Some ''post'' then reportPost i s else reportReply i s)"

subsection \<open>\<^verbatim>\<open>GET /api/my-room\<close>\<close>

definition visibleReplies :: "nat \<Rightarrow> reply list \<Rightarrow> reply list" where
  "visibleReplies i rs = filter (\<lambda>r. r_postId r = i \<and> r_status r = ''visible'') rs"

definition getMyRoom :: "user \<Rightarrow> db \<Rightarrow> outcome \<times> db" where
  "getMyRoom usr s =
     (let token = u_deviceToken usr;
          myPosts = sort_key (\<lambda>p. - p_createdAt p)
                      (filter (\<lambda>p. p_authorToken p = token) (posts s));
          postsWithReplies = map (\<lambda>p. (p, visibleReplies (p_id p) (replies s))) myPosts;
          myInteractedPostIds =
            remdups (map r_postId
              (filter (\<lambda>r. r_responderToken r = token \<and> \<not> r_isAuthorReply r) (replies s)));
          interactions =
            concat (map (\<lambda>pid. case findPost pid (posts s) of
                                  None \<Rightarrow> []
                                | Some p \<Rightarrow> [(p, visibleReplies pid (replies s))])
                        myInteractedPostIds)
      in (Inr (200, RoomBody postsWithReplies interactions), s))"

subsection \<open>Admin routes\<close>

text \<open>\<open>adminKey\<close> is \<^verbatim>\<open>ADMIN_KEY\<close>, read from the environment when the server starts.\<close>

definition getDashboard :: "string \<Rightarrow> string option \<Rightarrow> db \<Rightarrow> outcome \<times> db" where
  "getDashboard adminKey key s =
     (if key \<noteq> Some adminKey then (Inr (403, ErrorBody ''Forbidden''), s)
      else
        let flaggedPosts = sort_key (\<lambda>p. - p_reports p) (filter (\<lambda>p. 0 < p_reports p) (posts s));
            flaggedReplies =
              sort_key (\<lambda>r. - r_reports r) (filter (\<lambda>r. 0 < r_reports r) (replies s))
        in (Inr (200, DashboardBody flaggedPosts flaggedReplies), s))"

definition deleteBan :: "string \<Rightarrow> string option \<Rightarrow> string \<Rightarrow> bool \<Rightarrow> db \<Rightarrow> outcome \<times> db" where
  "deleteBan adminKey key token deleteContent s =
     (if key \<noteq> Some adminKey then (Inr (403, ErrorBody ''Forbidden''), s)
      else
        let s1 = s\<lparr>users := findOneAndUpdate (\<lambda>u. u_deviceToken u = token)
                                (\<lambda>u. u\<lparr>u_isBanned := True\<rparr>) (users s)\<rparr>;
            s2 = (if deleteContent
                  then s1\<lparr>posts := updateMany (\<lambda>p. p_authorToken p = token)
                                      (\<lambda>p. p\<lparr>p_status := ''deleted''\<rparr>) (posts s1),
                          replies := updateMany (\<lambda>r. r_responderToken r = token)
                                      (\<lambda>r. r\<lparr>r_status := ''deleted''\<rparr>) (replies s1)\<rparr>
                  else s1)
        in (Inr (200, MessageBody ''User banished.''), s2))"

subsection \<open>Routing\<close>

datatype request =
    GetMe "string option"
  | PostPost "string option" "string option" "string option" "string option"
  | GetRandom "string option" "string option" nat
  | PostReply "string option" "nat option" "string option"
  | PostReport "string option" "string option" nat
  | GetMyRoom "string option"
  | GetDashboard "string option"
  | DeleteBan "string option" string bool

text \<open>A route behind \<^verbatim>\<open>authUser\<close>: the handler runs only when the middleware calls on.\<close>

definition withAuth ::
  "int \<Rightarrow> string option \<Rightarrow> (user \<Rightarrow> db \<Rightarrow> outcome \<times> db) \<Rightarrow> db \<Rightarrow> outcome \<times> db"
where
  "withAuth now voidKey handler s =
     (case authUser now voidKey s of
        (Inl resp, s') \<Rightarrow> (Inr resp, s')
      | (Inr usr, s') \<Rightarrow> handler usr s')"

fun handle ::
  "(string \<Rightarrow> string) \<Rightarrow> string \<Rightarrow> int \<Rightarrow> request \<Rightarrow> db \<Rightarrow> outcome \<times> db"
where
  "handle toLowerCase adminKey now (GetMe k) s = withAuth now k getMe s"
| "handle toLowerCase adminKey now (PostPost k mood text room) s =
     withAuth now k (\<lambda>usr. createPost toLowerCase now usr mood text room) s"
| "handle toLowerCase adminKey now (GetRandom k room rnd) s =
     withAuth now k (\<lambda>usr. getRandom rnd usr room) s"
| "handle toLowerCase adminKey now (PostReply k postId text) s =
     withAuth now k (\<lambda>usr. createReply now usr postId text) s"
| "handle toLowerCase adminKey now (PostReport k type i) s =
     withAuth now k (\<lambda>usr. report usr type i) s"
| "handle toLowerCase adminKey now (GetMyRoom k) s = withAuth now k getMyRoom s"
| "handle toLowerCase adminKey now (GetDashboard key) s = getDashboard adminKey key s"
| "handle toLowerCase adminKey now (DeleteBan key token deleteContent) s =
     deleteBan adminKey key token deleteContent s"

text \<open>A run of the server: requests handled one after the other, each at its own time.\<close>

fun run :: "(string \<Rightarrow> string) \<Rightarrow> string \<Rightarrow> (int \<times> request) list \<Rightarrow> db \<Rightarrow> db" where
  "run toLowerCase adminKey [] s = s"
| "run toLowerCase adminKey ((now, req) # rest) s =
     run toLowerCase adminKey rest (snd (handle toLowerCase adminKey now req s))"

subsection \<open>Observations on the store\<close>

text \<open>
  The points of an identity: the \<^verbatim>\<open>lightPoints\<close> of the user that \<^verbatim>\<open>User.findOne\<close>
  returns for the key, zero while no user has the key (a user starts with zero points).
\<close>

definition lightPointsOf :: "string \<Rightarrow> db \<Rightarrow> int" where
  "lightPointsOf k s = (case findUser k (users s) of None \<Rightarrow> 0 | Some u \<Rightarrow> u_lightPoints u)"

text \<open>
  The reward policy of the specification: a post that was created is worth one point
  to the identity that sent the request, a reply that was created five, nothing else
  is worth anything.
\<close>

fun reward :: "string \<Rightarrow> request \<Rightarrow> outcome \<Rightarrow> int" where
  "reward k (PostPost key mood text room) (Inr (code, PostBody p)) = (if key = Some k then 1 else 0)"
| "reward k (PostReply key postId text) (Inr (code, SuccessBody)) = (if key = Some k then 5 else 0)"
| "reward k req out = 0"

fun earned ::
  "(string \<Rightarrow> string) \<Rightarrow> string \<Rightarrow> string \<Rightarrow> (int \<times> request) list \<Rightarrow> db \<Rightarrow> int"
where
  "earned toLowerCase k adminKey [] s = 0"
| "earned toLowerCase k adminKey ((now, req) # rest) s =
     reward k req (fst (handle toLowerCase adminKey now req s)) +
     earned toLowerCase k adminKey rest (snd (handle toLowerCase adminKey now req s))"

text \<open>
  Eligibility in the words of the specification: the post is active, has fewer than
  three reports, is not by the requester, and the room filter is absent or ``all'' or is
  the room of the post.
\<close>

definition spec_eligible :: "string \<Rightarrow> string option \<Rightarrow> post \<Rightarrow> bool" where
  "spec_eligible requesterKey roomFilter p =
     (p_status p = ''active'' \<and> p_reports p < 3 \<and> p_authorToken p \<noteq> requesterKey \<and>
      (roomFilter = None \<or> roomFilter = Some ''all'' \<or> roomFilter = Some (p_room p)))"

text \<open>The same, with the empty string as a filter counted as no filter.\<close>

definition eligible :: "string \<Rightarrow> string option \<Rightarrow> post \<Rightarrow> bool" where
  "eligible requesterKey roomFilter p =
     (p_status p = ''active'' \<and> p_reports p < 3 \<and> p_authorToken p \<noteq> requesterKey \<and>
      (roomFilter = None \<or> roomFilter = Some [] \<or> roomFilter = Some ''all'' \<or>
       roomFilter = Some (p_room p)))"

text \<open>Every post of the store is in one of the five rooms.\<close>

definition rooms_inv :: "db \<Rightarrow> bool" where
  "rooms_inv s = list_all (\<lambda>p. p_room p \<in> set validRooms) (posts s)"

text \<open>Hidden entities have been reported three times or more.\<close>

definition hidden_inv :: "db \<Rightarrow> bool" where
  "hidden_inv s =
     (list_all (\<lambda>p. p_status p \<noteq> ''hidden'' \<or> 3 \<le> p_reports p) (posts s) \<and>
      list_all (\<lambda>r. r_status r \<noteq> ''hidden'' \<or> 3 \<le> r_reports r) (replies s))"

text \<open>Reporting the same entity \<open>n\<close> times in a row.\<close>

fun reportTimes :: "nat \<Rightarrow> user \<Rightarrow> string option \<Rightarrow> nat \<Rightarrow> db \<Rightarrow> db" where
  "reportTimes 0 usr type i s = s"
| "reportTimes (Suc n) usr type i s = reportTimes n usr type i (snd (report usr type i s))"

subsection \<open>Example stores\<close>

text \<open>
  A store with one user, one post by somebody else and one reply, and a store with
  120 posts in two rooms, some by that user, some hidden, some with three reports,
  whose reply counts cycle through zero to six.
\<close>

definition alice :: user where
  "alice = \<lparr>u_deviceToken = ''VOID-AAAA-AAAA-AAAA'', u_lightPoints = 0, u_isBanned = False,
             u_createdAt = 1\<rparr>"

definition bobs_post :: post where
  "bobs_post = \<lparr>p_id = 0, p_mood = ''sad'', p_text = ''hello'', p_room = ''love'',
                 p_authorToken = ''VOID-BBBB-BBBB-BBBB'', p_status = ''active'', p_reports = 0,
                 p_replyCount = 0, p_createdAt = 2\<rparr>"

definition alices_reply :: reply where
  "alices_reply = \<lparr>r_id = 1, r_postId = 0, r_text = ''I hear you'',
                    r_responderToken = ''VOID-AAAA-AAAA-AAAA'', r_isAuthorReply = False,
                    r_status = ''visible'', r_reports = 0, r_createdAt = 3\<rparr>"

definition small_db :: db where
  "small_db = \<lparr>users = [alice], posts = [bobs_post], replies = [alices_reply], next_id = 2\<rparr>"

definition crowd :: "post list" where
  "crowd = map (\<lambda>n. \<lparr>p_id = n, p_mood = ''lost'', p_text = ''anyone?'',
                       p_room = (if n mod 6 = 1 then ''work'' else ''life''),
                       p_authorToken = (if n mod 5 = 0 then ''VOID-AAAA-AAAA-AAAA''
                                        else ''VOID-BBBB-BBBB-BBBB''),
                       p_status = (if n mod 9 = 4 then ''hidden'' else ''active''),
                       p_reports = int (n mod 4), p_replyCount = int (n mod 7),
                       p_createdAt = int n\<rparr>)
             [0..<120]"

definition crowd_db :: db where
  "crowd_db = \<lparr>users = [alice], posts = crowd, replies = [], next_id = 120\<rparr>"

section \<open>Store and middleware lemmas\<close>

lemma findOneAndUpdate_absent: "find P xs = None \<Longrightarrow> findOneAndUpdate P f xs = xs"
  by (induction xs) (auto split: if_splits)

lemma map_findOneAndUpdate: "(\<And>x. g (f x) = g x) \<Longrightarrow> map g (findOneAndUpdate P f xs) = map g xs"
  by (induction xs) auto

lemma list_all_findOneAndUpdate:
  "list_all R xs \<Longrightarrow> (\<And>x. R x \<Longrightarrow> P x \<Longrightarrow> R (f x)) \<Longrightarrow> list_all R (findOneAndUpdate P f xs)"
  by (induction xs) auto

lemma list_all_updateMany:
  "list_all R xs \<Longrightarrow> (\<And>x. R x \<Longrightarrow> P x \<Longrightarrow> R (f x)) \<Longrightarrow> list_all R (updateMany P f xs)"
  by (induction xs) (auto simp: updateMany_def)

lemma authUser_cases:
  "authUser now key s = (r, s') \<Longrightarrow>
     (s' = s \<and> (\<exists>resp. r = Inl resp)) \<or>
     (\<exists>k u. key = Some k \<and> keyPattern_test k \<and> r = Inr u \<and> u_deviceToken u = k \<and> \<not> u_isBanned u \<and>
        ((s' = s \<and> findUser k (users s) = Some u) \<or>
         (findUser k (users s) = None \<and> u_lightPoints u = 0 \<and> s' = s\<lparr>users := users s @ [u]\<rparr>)))"
  unfolding authUser_def findUser_def
  by (auto split: option.splits if_splits simp: Let_def dest: find_Some_iff[THEN iffD1])

lemma authUser_frame:
  "authUser now key s = (r, s') \<Longrightarrow>
     posts s' = posts s \<and> replies s' = replies s \<and> next_id s' = next_id s"
  by (drule authUser_cases) auto

subsection \<open>Points\<close>

lemma find_append_first:
  "find P (xs @ ys) = (case find P xs of None \<Rightarrow> find P ys | Some x \<Rightarrow> Some x)"
  by (induction xs) auto

lemma findUser_incLightPoints_same:
  "findUser k (incLightPoints k n us) =
     map_option (\<lambda>u. u\<lparr>u_lightPoints := u_lightPoints u + n\<rparr>) (findUser k us)"
  unfolding findUser_def incLightPoints_def by (induction us) auto

lemma findUser_incLightPoints_other:
  "k' \<noteq> k \<Longrightarrow> findUser k (incLightPoints k' n us) = findUser k us"
  unfolding findUser_def incLightPoints_def by (induction us) auto

lemma lightPointsOf_authUser:
  "authUser now key s = (r, s') \<Longrightarrow> lightPointsOf k s' = lightPointsOf k s"
  by (drule authUser_cases)
     (auto simp: lightPointsOf_def findUser_def find_append_first split: option.splits if_splits)

lemma authUser_user_present:
  "authUser now key s = (Inr usr, s') \<Longrightarrow> findUser (u_deviceToken usr) (users s') = Some usr"
  by (drule authUser_cases)
     (auto simp: findUser_def find_append_first split: option.splits)

lemma authUser_key:
  "authUser now key s = (Inr usr, s') \<Longrightarrow> key = Some (u_deviceToken usr)"
  by (drule authUser_cases) auto

lemma createPost_points:
  "findUser (u_deviceToken usr) (users s) \<noteq> None \<Longrightarrow>
   lightPointsOf k (snd (createPost lc now usr mood text room s)) =
     lightPointsOf k s + reward k (PostPost (Some (u_deviceToken usr)) mood text room)
        (fst (createPost lc now usr mood text room s))"
proof (cases "k = u_deviceToken usr")
  case True
  assume "findUser (u_deviceToken usr) (users s) \<noteq> None"
  with True show ?thesis
    by (cases "(lc, now, usr, mood, text, room, s)" rule: createPost.cases)
       (auto simp: Let_def lightPointsOf_def findUser_incLightPoints_same split: option.splits)
next
  case False
  then show ?thesis
    by (cases "(lc, now, usr, mood, text, room, s)" rule: createPost.cases)
       (auto simp: Let_def lightPointsOf_def findUser_incLightPoints_other)
qed

lemma createReply_points:
  "findUser (u_deviceToken usr) (users s) \<noteq> None \<Longrightarrow>
   lightPointsOf k (snd (createReply now usr postId text s)) =
     lightPointsOf k s + reward k (PostReply (Some (u_deviceToken usr)) postId text)
        (fst (createReply now usr postId text s))"
proof (cases "k = u_deviceToken usr")
  case True
  assume "findUser (u_deviceToken usr) (users s) \<noteq> None"
  with True show ?thesis
    by (cases "(now, usr, postId, text, s)" rule: createReply.cases)
       (auto simp: Let_def lightPointsOf_def findUser_incLightPoints_same split: option.splits)
next
  case False
  then show ?thesis
    by (cases "(now, usr, postId, text, s)" rule: createReply.cases)
       (auto simp: Let_def lightPointsOf_def findUser_incLightPoints_other split: option.splits)
qed

lemma report_users: "users (snd (report usr type i s)) = users s"
  by (simp add: report_def reportPost_def reportReply_def Let_def split: option.splits)

lemma lightPoints_ban:
  "(case findUser k (findOneAndUpdate (\<lambda>u. u_deviceToken u = token)
      (\<lambda>u. u\<lparr>u_isBanned := True\<rparr>) us) of None \<Rightarrow> 0 | Some u \<Rightarrow> u_lightPoints u) =
   (case findUser k us of None \<Rightarrow> 0 | Some u \<Rightarrow> u_lightPoints u)"
  unfolding findUser_def by (induction us) auto

lemma deleteBan_points:
  "lightPointsOf k (snd (deleteBan adminKey key token deleteContent s)) = lightPointsOf k s"
  by (simp add: deleteBan_def Let_def lightPointsOf_def lightPoints_ban)

lemma authUser_reject:
  "authUser now key s = (Inl resp, s') \<Longrightarrow>
     s' = s \<and> ((\<exists>msg. resp = (401, ErrorBody msg)) \<or> resp = (200, ShadowBody))"
  unfolding authUser_def
  by (auto split: option.splits if_splits simp: Let_def)

lemma reward_reject:
  "(\<exists>msg. resp = (401, ErrorBody msg)) \<or> resp = (200, ShadowBody) \<Longrightarrow> reward k req (Inr resp) = 0"
  by (cases req) auto

lemma handle_points:
  "lightPointsOf k (snd (handle lc adminKey now req s)) =
     lightPointsOf k s + reward k req (fst (handle lc adminKey now req s))"
proof (cases req)
  case (GetMe key)
  then show ?thesis
    by (auto simp: withAuth_def getMe_def split: prod.splits sum.splits dest: lightPointsOf_authUser)
next
  case (PostPost key mood txt0 room)
  show ?thesis
  proof (cases "authUser now key s")
    case (Pair r s')
    show ?thesis
    proof (cases r)
      case (Inl resp)
      with Pair PostPost lightPointsOf_authUser[OF Pair, of k] authUser_reject[of now key s resp s']
        reward_reject[of resp k req]
      show ?thesis by (simp add: withAuth_def)
    next
      case (Inr usr)
      with Pair have "findUser (u_deviceToken usr) (users s') \<noteq> None" "key = Some (u_deviceToken usr)"
        using authUser_user_present authUser_key by fastforce+
      with Pair Inr PostPost lightPointsOf_authUser[OF Pair, of k] createPost_points[of usr s' k lc now mood txt0 room]
      show ?thesis by (simp add: withAuth_def)
    qed
  qed
next
  case (GetRandom key room rnd)
  then show ?thesis
    by (auto simp: withAuth_def getRandom_def split: prod.splits sum.splits list.splits dest: lightPointsOf_authUser)
next
  case (PostReply key postId txt0)
  show ?thesis
  proof (cases "authUser now key s")
    case (Pair r s')
    show ?thesis
    proof (cases r)
      case (Inl resp)
      with Pair PostReply lightPointsOf_authUser[OF Pair, of k] authUser_reject[of now key s resp s']
        reward_reject[of resp k req]
      show ?thesis by (simp add: withAuth_def)
    next
      case (Inr usr)
      with Pair have "findUser (u_deviceToken usr) (users s') \<noteq> None" "key = Some (u_deviceToken usr)"
        using authUser_user_present authUser_key by fastforce+
      with Pair Inr PostReply lightPointsOf_authUser[OF Pair, of k] createReply_points[of usr s' k now postId txt0]
      show ?thesis by (simp add: withAuth_def)
    qed
  qed
next
  case (PostReport key type i)
  show ?thesis
  proof (cases "authUser now key s")
    case (Pair r s')
    have "lightPointsOf k (snd (report usr type i s')) = lightPointsOf k s'" for usr
      by (simp add: lightPointsOf_def report_users)
    with Pair PostReport lightPointsOf_authUser[OF Pair, of k] show ?thesis
      by (cases r) (simp_all add: withAuth_def)
  qed
next
  case (GetMyRoom key)
  then show ?thesis
    by (auto simp: withAuth_def getMyRoom_def Let_def split: prod.splits sum.splits dest: lightPointsOf_authUser)
next
  case (GetDashboard key)
  then show ?thesis by (simp add: getDashboard_def Let_def)
next
  case (DeleteBan key token deleteContent)
  then show ?thesis by (simp add: deleteBan_points)
qed

lemma tokens_incLightPoints: "map u_deviceToken (incLightPoints k n us) = map u_deviceToken us"
  unfolding incLightPoints_def by (induction us) auto

lemma createPost_tokens:
  "map u_deviceToken (users (snd (createPost lc now usr mood t room s))) = map u_deviceToken (users s)"
  by (cases "(lc, now, usr, mood, t, room, s)" rule: createPost.cases)
     (auto simp: Let_def tokens_incLightPoints)

lemma createReply_tokens:
  "map u_deviceToken (users (snd (createReply now usr postId t s))) = map u_deviceToken (users s)"
  by (cases "(now, usr, postId, t, s)" rule: createReply.cases)
     (auto simp: Let_def tokens_incLightPoints split: option.splits)

lemma deleteBan_tokens:
  "map u_deviceToken (users (snd (deleteBan adminKey key token deleteContent s))) =
     map u_deviceToken (users s)"
  by (simp add: deleteBan_def Let_def map_findOneAndUpdate)

lemma getRandom_state: "snd (getRandom rnd usr room s) = s"
  by (simp add: getRandom_def split: list.splits)

lemma getMe_state: "snd (getMe usr s) = s"
  by (simp add: getMe_def)

lemma getMyRoom_state: "snd (getMyRoom usr s) = s"
  by (simp add: getMyRoom_def Let_def)

lemma withAuth_tokens:
  assumes "\<And>usr s0. map u_deviceToken (users (snd (h usr s0))) = map u_deviceToken (users s0)"
  shows "map u_deviceToken (users (snd (withAuth now key h s))) = map u_deviceToken (users s) \<or>
         (\<exists>k. key = Some k \<and> keyPattern_test k \<and>
            map u_deviceToken (users (snd (withAuth now key h s))) = map u_deviceToken (users s) @ [k])"
proof (cases "authUser now key s")
  case (Pair r s')
  from authUser_cases[OF Pair] assms show ?thesis
    using Pair by (cases r) (auto simp: withAuth_def)
qed

lemma handle_tokens:
  "map u_deviceToken (users (snd (handle lc adminKey now req s))) = map u_deviceToken (users s) \<or>
   (\<exists>k. keyPattern_test k \<and>
      map u_deviceToken (users (snd (handle lc adminKey now req s))) = map u_deviceToken (users s) @ [k])"
proof (cases req)
  case (GetMe key)
  with withAuth_tokens[of getMe now key s] getMe_state show ?thesis by auto
next
  case (PostPost key mood txt0 room)
  with withAuth_tokens[of "\<lambda>usr. createPost lc now usr mood txt0 room" now key s] createPost_tokens
  show ?thesis by auto
next
  case (GetRandom key room rnd)
  with withAuth_tokens[of "\<lambda>usr. getRandom rnd usr room" now key s] getRandom_state
  show ?thesis by auto
next
  case (PostReply key postId txt0)
  with withAuth_tokens[of "\<lambda>usr. createReply now usr postId txt0" now key s] createReply_tokens
  show ?thesis by auto
next
  case (PostReport key type i)
  with withAuth_tokens[of "\<lambda>usr. report usr type i" now key s] report_users show ?thesis by auto
next
  case (GetMyRoom key)
  with withAuth_tokens[of getMyRoom now key s] getMyRoom_state show ?thesis by auto
next
  case (GetDashboard key)
  then show ?thesis by (simp add: getDashboard_def Let_def)
next
  case (DeleteBan key token deleteContent)
  then show ?thesis by (simp add: deleteBan_tokens)
qed

lemma run_points:
  "lightPointsOf k (run lc adminKey reqs s) = lightPointsOf k s + earned lc k adminKey reqs s"
proof (induction reqs arbitrary: s)
  case Nil
  then show ?case by simp
next
  case (Cons a reqs)
  obtain now req where a: "a = (now, req)" by (cases a)
  show ?case
    unfolding a by (simp add: Cons.IH handle_points)
qed

lemma reward_nonneg: "0 \<le> reward k req out"
  by (cases "(k, req, out)" rule: reward.cases) auto

lemma earned_nonneg: "0 \<le> earned lc k adminKey reqs s"
proof (induction reqs arbitrary: s)
  case Nil
  then show ?case by simp
next
  case (Cons a reqs)
  obtain now req where a: "a = (now, req)" by (cases a)
  show ?case unfolding a using Cons.IH reward_nonneg by simp
qed

lemma reward_other:
  "key_of \<noteq> Some k \<Longrightarrow> reward k (PostPost key_of m t r) out = 0 \<and> reward k (PostReply key_of i t) out = 0"
  by (cases "(k, PostPost key_of m t r, out)" rule: reward.cases; cases "(k, PostReply key_of i t, out)" rule: reward.cases) auto

subsection \<open>Posts and replies\<close>

lemma assignedRoom_valid: "assignedRoom room \<in> set validRooms"
  by (auto simp: assignedRoom_def validRooms_def split: option.splits)

lemma createPost_posts:
  "posts (snd (createPost lc now usr mood t room s)) = posts s \<or>
   (\<exists>p. fst (createPost lc now usr mood t room s) = Inr (201, PostBody p) \<and>
        posts (snd (createPost lc now usr mood t room s)) = posts s @ [p] \<and>
        p_room p = assignedRoom room)"
  by (cases "(lc, now, usr, mood, t, room, s)" rule: createPost.cases) (auto simp: Let_def)

lemma createPost_created:
  "mood \<noteq> [] \<Longrightarrow> t \<noteq> [] \<Longrightarrow> moderateText lc t \<Longrightarrow>
   \<exists>p. fst (createPost lc now usr (Some mood) (Some t) room s) = Inr (201, PostBody p) \<and>
       posts (snd (createPost lc now usr (Some mood) (Some t) room s)) = posts s @ [p] \<and>
       p_room p = assignedRoom room"
  by (simp add: Let_def)

lemma createPost_harmful:
  "mood \<noteq> [] \<Longrightarrow> t \<noteq> [] \<Longrightarrow> \<not> moderateText lc t \<Longrightarrow>
   createPost lc now usr (Some mood) (Some t) room s = (Inr (400, ErrorBody ''Harmful content detected''), s)"
  by simp

lemma authUser_admit:
  "keyPattern_test k \<Longrightarrow> (case findUser k (users s) of None \<Rightarrow> True | Some u \<Rightarrow> \<not> u_isBanned u) \<Longrightarrow>
   \<exists>usr s'. authUser now (Some k) s = (Inr usr, s') \<and> u_deviceToken usr = k \<and>
      posts s' = posts s \<and> replies s' = replies s \<and> next_id s' = next_id s"
proof -
  assume a: "keyPattern_test k" "case findUser k (users s) of None \<Rightarrow> True | Some u \<Rightarrow> \<not> u_isBanned u"
  then have "k \<noteq> []" by (auto simp: keyPattern_test_def keyPattern_def)
  with a show ?thesis
    by (auto simp: authUser_def Let_def findUser_def split: option.splits dest: find_Some_iff[THEN iffD1])
qed

lemma createReply_stored:
  "t \<noteq> [] \<Longrightarrow> findPost i (posts s) = Some p \<Longrightarrow>
   fst (createReply now usr (Some i) (Some t) s) = Inr (200, SuccessBody) \<and>
   replies (snd (createReply now usr (Some i) (Some t) s)) = replies s @
     [\<lparr>r_id = next_id s, r_postId = i, r_text = t, r_responderToken = u_deviceToken usr,
       r_isAuthorReply = (p_authorToken p = u_deviceToken usr), r_status = ''visible'',
       r_reports = 0, r_createdAt = now\<rparr>]"
  by (simp add: Let_def)

lemma reportPost_absent:
  "findPost i (posts s) = None \<Longrightarrow> reportPost i s = (Inl TypeError, s)"
  by (simp add: reportPost_def findPost_def findOneAndUpdate_absent Let_def)

lemma reportReply_absent:
  "findReply i (replies s) = None \<Longrightarrow> reportReply i s = (Inl TypeError, s)"
  by (simp add: reportReply_def findReply_def findOneAndUpdate_absent Let_def)

subsection \<open>Selection\<close>

lemma sample1_member: "sample1 rnd xs = p # rest \<Longrightarrow> p \<in> set xs \<and> rest = []"
  by (auto simp: sample1_def split: if_splits)

lemma sample1_any: "i < length xs \<Longrightarrow> sample1 i xs = [xs ! i]"
  by (auto simp: sample1_def)

lemma pool_empty: "pool token room ps = [] \<longleftrightarrow> candidates token room ps = []"
proof -
  have "pool token room ps = [] \<longleftrightarrow> length (pool token room ps) = 0" by simp
  also have "\<dots> \<longleftrightarrow> length (candidates token room ps) = 0"
    by (auto simp: pool_def min_def)
  finally show ?thesis by simp
qed

lemma getRandom_empty:
  "candidates (u_deviceToken usr) room (posts s) = [] \<Longrightarrow>
   getRandom rnd usr room s = (Inr (204, NoBody), s)"
  by (simp add: getRandom_def aggregate_def sample1_def pool_empty)

lemma getRandom_nonempty:
  "candidates (u_deviceToken usr) room (posts s) \<noteq> [] \<Longrightarrow>
   \<exists>p. getRandom rnd usr room s = (Inr (200, PostBody p), s) \<and> p \<in> set (pool (u_deviceToken usr) room (posts s))"
  by (simp add: getRandom_def aggregate_def sample1_def pool_empty)

lemma getRandom_post:
  "getRandom rnd usr room s = (Inr (code, PostBody p), s') \<Longrightarrow>
   p \<in> set (pool (u_deviceToken usr) room (posts s)) \<and> s' = s \<and> code = 200"
  by (auto simp: getRandom_def aggregate_def split: list.splits dest: sample1_member)

lemma pool_subset: "set (pool token room ps) \<subseteq> set (candidates token room ps)"
  unfolding pool_def using set_take_subset[of 50 "sort_key sortKey (candidates token room ps)"] by simp

lemma candidates_match: "p \<in> set (candidates token room ps) \<longleftrightarrow> p \<in> set ps \<and> matchStage token room p"
  by (simp add: candidates_def)

lemma matchStage_iff:
  "matchStage token room p \<longleftrightarrow>
     p_status p = ''active'' \<and> p_reports p < 3 \<and> p_authorToken p \<noteq> token \<and>
     (room = None \<or> room = Some [] \<or> room = Some ''all'' \<or> room = Some (p_room p))"
  unfolding matchStage_def roomCondition_def
  by (auto split: option.splits)

lemma withAuth_post:
  "withAuth now (Some k) (\<lambda>usr. getRandom rnd usr room) s = (Inr (code, PostBody p), s') \<Longrightarrow>
   p \<in> set (pool k room (posts s)) \<and> code = 200"
proof -
  assume a: "withAuth now (Some k) (\<lambda>usr. getRandom rnd usr room) s = (Inr (code, PostBody p), s')"
  obtain r s1 where au: "authUser now (Some k) s = (r, s1)" by (cases "authUser now (Some k) s")
  show ?thesis
  proof (cases r)
    case (Inl resp)
    with au a authUser_reject[of now "Some k" s resp s1] show ?thesis
      by (auto simp: withAuth_def)
  next
    case (Inr usr)
    with au authUser_cases[OF au] have "u_deviceToken usr = k" "posts s1 = posts s" by auto
    with au Inr a getRandom_post[of rnd usr room s1 code p s'] show ?thesis
      by (simp add: withAuth_def)
  qed
qed

lemma sortKey_le: "sortKey p \<le> sortKey q \<longleftrightarrow> comes_before p q"
  by (auto simp: sortKey_def comes_before_def less_eq_prod_def)

lemma sorted_candidates:
  "sorted_wrt comes_before (sort_key sortKey xs)"
proof -
  have "sorted (map sortKey (sort_key sortKey xs))" by (rule sorted_sort_key)
  then show ?thesis by (simp add: sorted_map sortKey_le)
qed

lemma pool_rest:
  "sort_key sortKey (candidates token room ps) =
     pool token room ps @ drop 50 (sort_key sortKey (candidates token room ps))"
  by (simp add: pool_def)

lemma pool_before_rest:
  "q \<in> set (pool token room ps) \<Longrightarrow>
   r \<in> set (drop 50 (sort_key sortKey (candidates token room ps))) \<Longrightarrow> comes_before q r"
proof -
  have "sorted_wrt comes_before
          (pool token room ps @ drop 50 (sort_key sortKey (candidates token room ps)))"
    using sorted_candidates[of "candidates token room ps"] pool_rest[of token room ps] by simp
  then show "q \<in> set (pool token room ps) \<Longrightarrow>
   r \<in> set (drop 50 (sort_key sortKey (candidates token room ps))) \<Longrightarrow> comes_before q r"
    unfolding sorted_wrt_append by blast
qed

lemma mset_pool:
  "mset (candidates token room ps) =
     mset (pool token room ps) + mset (drop 50 (sort_key sortKey (candidates token room ps)))"
proof -
  have "mset (candidates token room ps) = mset (sort_key sortKey (candidates token room ps))"
    by simp
  also have "\<dots> = mset (pool token room ps @ drop 50 (sort_key sortKey (candidates token room ps)))"
    using pool_rest[of token room ps] by simp
  finally show ?thesis by simp
qed

subsection \<open>Reports\<close>

lemma list_all_findOneAndUpdate_found:
  "list_all R xs \<Longrightarrow> (\<And>x. find P xs = Some x \<Longrightarrow> R (f x)) \<Longrightarrow>
   list_all R (findOneAndUpdate P f xs)"
  by (induction xs) auto

lemma find_member: "find P xs = Some x \<Longrightarrow> x \<in> set xs \<and> P x"
  by (induction xs) (auto split: if_splits)

lemma findPost_inc_reports:
  "findPost i (findOneAndUpdate (\<lambda>q. p_id q = i) (\<lambda>q. q\<lparr>p_reports := p_reports q + 1\<rparr>) ps) =
     map_option (\<lambda>q. q\<lparr>p_reports := p_reports q + 1\<rparr>) (findPost i ps)"
  unfolding findPost_def by (induction ps) auto

lemma findPost_hide:
  "findPost i (findOneAndUpdate (\<lambda>q. p_id q = i) (\<lambda>q. q\<lparr>p_status := ''hidden''\<rparr>) ps) =
     map_option (\<lambda>q. q\<lparr>p_status := ''hidden''\<rparr>) (findPost i ps)"
  unfolding findPost_def by (induction ps) auto

lemma findReply_inc_reports:
  "findReply i (findOneAndUpdate (\<lambda>q. r_id q = i) (\<lambda>q. q\<lparr>r_reports := r_reports q + 1\<rparr>) rs) =
     map_option (\<lambda>q. q\<lparr>r_reports := r_reports q + 1\<rparr>) (findReply i rs)"
  unfolding findReply_def by (induction rs) auto

lemma findReply_hide:
  "findReply i (findOneAndUpdate (\<lambda>q. r_id q = i) (\<lambda>q. q\<lparr>r_status := ''hidden''\<rparr>) rs) =
     map_option (\<lambda>q. q\<lparr>r_status := ''hidden''\<rparr>) (findReply i rs)"
  unfolding findReply_def by (induction rs) auto

lemma reportPost_present:
  "findPost i (posts s) = Some p \<Longrightarrow>
   fst (reportPost i s) = Inr (200, MessageBody ''Reported.'') \<and>
   findPost i (posts (snd (reportPost i s))) =
     Some (p\<lparr>p_reports := p_reports p + 1,
             p_status := (if 3 \<le> p_reports p + 1 then ''hidden'' else p_status p)\<rparr>) \<and>
   users (snd (reportPost i s)) = users s \<and> replies (snd (reportPost i s)) = replies s"
  by (simp add: reportPost_def Let_def findPost_inc_reports findPost_hide)

lemma reportReply_present:
  "findReply i (replies s) = Some r \<Longrightarrow>
   fst (reportReply i s) = Inr (200, MessageBody ''Reported.'') \<and>
   findReply i (replies (snd (reportReply i s))) =
     Some (r\<lparr>r_reports := r_reports r + 1,
             r_status := (if 3 \<le> r_reports r + 1 then ''hidden'' else r_status r)\<rparr>) \<and>
   users (snd (reportReply i s)) = users s \<and> posts (snd (reportReply i s)) = posts s"
  by (simp add: reportReply_def Let_def findReply_inc_reports findReply_hide)

lemma hidden_inv_reportPost: "hidden_inv s \<Longrightarrow> hidden_inv (snd (reportPost i s))"
proof -
  assume a: "hidden_inv s"
  let ?R = "\<lambda>p. p_status p \<noteq> ''hidden'' \<or> 3 \<le> p_reports p"
  let ?ps1 = "findOneAndUpdate (\<lambda>q. p_id q = i) (\<lambda>q. q\<lparr>p_reports := p_reports q + 1\<rparr>) (posts s)"
  have 1: "list_all ?R ?ps1"
  proof (rule list_all_findOneAndUpdate)
    show "list_all ?R (posts s)" using a by (simp add: hidden_inv_def)
    show "?R (x\<lparr>p_reports := p_reports x + 1\<rparr>)" if "?R x" for x :: post
      using that by auto
  qed
  have 2: "list_all ?R (findOneAndUpdate (\<lambda>q. p_id q = i) (\<lambda>q. q\<lparr>p_status := ''hidden''\<rparr>) ?ps1)"
    if "findPost i ?ps1 = Some p" "3 \<le> p_reports p" for p
  proof (rule list_all_findOneAndUpdate_found)
    show "list_all ?R ?ps1" by (rule 1)
    show "?R (x\<lparr>p_status := ''hidden''\<rparr>)" if "find (\<lambda>q. p_id q = i) ?ps1 = Some x" for x
      using that \<open>findPost i ?ps1 = Some p\<close> \<open>3 \<le> p_reports p\<close> by (simp add: findPost_def)
  qed
  from a 1 2 show ?thesis
    by (auto simp: reportPost_def Let_def hidden_inv_def split: option.splits)
qed

lemma hidden_inv_reportReply: "hidden_inv s \<Longrightarrow> hidden_inv (snd (reportReply i s))"
proof -
  assume a: "hidden_inv s"
  let ?R = "\<lambda>r. r_status r \<noteq> ''hidden'' \<or> 3 \<le> r_reports r"
  let ?rs1 = "findOneAndUpdate (\<lambda>q. r_id q = i) (\<lambda>q. q\<lparr>r_reports := r_reports q + 1\<rparr>) (replies s)"
  have 1: "list_all ?R ?rs1"
  proof (rule list_all_findOneAndUpdate)
    show "list_all ?R (replies s)" using a by (simp add: hidden_inv_def)
    show "?R (x\<lparr>r_reports := r_reports x + 1\<rparr>)" if "?R x" for x :: reply
      using that by auto
  qed
  have 2: "list_all ?R (findOneAndUpdate (\<lambda>q. r_id q = i) (\<lambda>q. q\<lparr>r_status := ''hidden''\<rparr>) ?rs1)"
    if "findReply i ?rs1 = Some r" "3 \<le> r_reports r" for r
  proof (rule list_all_findOneAndUpdate_found)
    show "list_all ?R ?rs1" by (rule 1)
    show "?R (x\<lparr>r_status := ''hidden''\<rparr>)" if "find (\<lambda>q. r_id q = i) ?rs1 = Some x" for x
      using that \<open>findReply i ?rs1 = Some r\<close> \<open>3 \<le> r_reports r\<close> by (simp add: findReply_def)
  qed
  from a 1 2 show ?thesis
    by (auto simp: reportReply_def Let_def hidden_inv_def split: option.splits)
qed

lemma hidden_inv_report: "hidden_inv s \<Longrightarrow> hidden_inv (snd (report usr ty i s))"
  by (simp add: report_def hidden_inv_reportPost hidden_inv_reportReply)

lemma hidden_inv_createPost: "hidden_inv s \<Longrightarrow> hidden_inv (snd (createPost lc now usr mood t room s))"
  by (cases "(lc, now, usr, mood, t, room, s)" rule: createPost.cases)
     (auto simp: Let_def hidden_inv_def)

lemma hidden_inv_createReply: "hidden_inv s \<Longrightarrow> hidden_inv (snd (createReply now usr postId t s))"
proof (cases "(now, usr, postId, t, s)" rule: createReply.cases)
  case (1 now' usr' pid t' s')
  assume a: "hidden_inv s"
  let ?R = "\<lambda>p. p_status p \<noteq> ''hidden'' \<or> 3 \<le> p_reports p"
  have "list_all ?R
      (findOneAndUpdate (\<lambda>q. p_id q = pid) (\<lambda>q. q\<lparr>p_replyCount := p_replyCount q + 1\<rparr>) (posts s))"
  proof (rule list_all_findOneAndUpdate)
    show "list_all ?R (posts s)" using a by (simp add: hidden_inv_def)
    show "?R (x\<lparr>p_replyCount := p_replyCount x + 1\<rparr>)" if "?R x" for x :: post
      using that by auto
  qed
  with a 1 show ?thesis
    by (auto simp: Let_def hidden_inv_def split: option.splits)
qed (auto)

lemma hidden_inv_deleteBan:
  "hidden_inv s \<Longrightarrow> hidden_inv (snd (deleteBan adminKey key token deleteContent s))"
proof -
  assume a: "hidden_inv s"
  have "list_all (\<lambda>p. p_status p \<noteq> ''hidden'' \<or> 3 \<le> p_reports p)
      (updateMany (\<lambda>p. p_authorToken p = token) (\<lambda>p. p\<lparr>p_status := ''deleted''\<rparr>) (posts s))"
  proof (rule list_all_updateMany)
    show "list_all (\<lambda>p. p_status p \<noteq> ''hidden'' \<or> 3 \<le> p_reports p) (posts s)"
      using a by (simp add: hidden_inv_def)
  qed simp
  moreover have "list_all (\<lambda>r. r_status r \<noteq> ''hidden'' \<or> 3 \<le> r_reports r)
      (updateMany (\<lambda>r. r_responderToken r = token) (\<lambda>r. r\<lparr>r_status := ''deleted''\<rparr>) (replies s))"
  proof (rule list_all_updateMany)
    show "list_all (\<lambda>r. r_status r \<noteq> ''hidden'' \<or> 3 \<le> r_reports r) (replies s)"
      using a by (simp add: hidden_inv_def)
  qed simp
  ultimately show ?thesis using a
    by (auto simp: deleteBan_def Let_def hidden_inv_def)
qed

lemma hidden_inv_withAuth:
  assumes "\<And>usr s0. hidden_inv s0 \<Longrightarrow> hidden_inv (snd (h usr s0))" and "hidden_inv s"
  shows "hidden_inv (snd (withAuth now key h s))"
proof (cases "authUser now key s")
  case (Pair r s')
  from authUser_cases[OF Pair] assms(2) have "hidden_inv s'"
    by (auto simp: hidden_inv_def)
  with assms(1) Pair show ?thesis by (cases r) (auto simp: withAuth_def)
qed

lemma hidden_inv_handle: "hidden_inv s \<Longrightarrow> hidden_inv (snd (handle lc adminKey now req s))"
proof (cases req)
  case (GetMe key)
  assume "hidden_inv s"
  with GetMe show ?thesis by (auto intro!: hidden_inv_withAuth simp: getMe_state)
next
  case (PostPost key mood txt0 room)
  assume "hidden_inv s"
  with PostPost show ?thesis by (auto intro!: hidden_inv_withAuth hidden_inv_createPost)
next
  case (GetRandom key room rnd)
  assume "hidden_inv s"
  with GetRandom show ?thesis by (auto intro!: hidden_inv_withAuth simp: getRandom_state)
next
  case (PostReply key postId txt0)
  assume "hidden_inv s"
  with PostReply show ?thesis by (auto intro!: hidden_inv_withAuth hidden_inv_createReply)
next
  case (PostReport key type i)
  assume "hidden_inv s"
  with PostReport show ?thesis by (auto intro!: hidden_inv_withAuth hidden_inv_report)
next
  case (GetMyRoom key)
  assume "hidden_inv s"
  with GetMyRoom show ?thesis by (auto intro!: hidden_inv_withAuth simp: getMyRoom_state)
next
  case (GetDashboard key)
  assume "hidden_inv s"
  with GetDashboard show ?thesis by (simp add: getDashboard_def Let_def)
next
  case (DeleteBan key token deleteContent)
  assume "hidden_inv s"
  with DeleteBan show ?thesis by (simp add: hidden_inv_deleteBan)
qed

lemma hidden_inv_run: "hidden_inv s \<Longrightarrow> hidden_inv (run lc adminKey reqs s)"
proof (induction reqs arbitrary: s)
  case Nil
  then show ?case by simp
next
  case (Cons a reqs)
  obtain now req where a: "a = (now, req)" by (cases a)
  from Cons show ?case unfolding a by (simp add: hidden_inv_handle)
qed

lemma hidden_inv_empty: "hidden_inv empty_db"
  by (simp add: hidden_inv_def empty_db_def)

lemma hidden_inv_post:
  "hidden_inv s \<Longrightarrow> findPost i (posts s) = Some p \<Longrightarrow> p_status p = ''hidden'' \<Longrightarrow> 3 \<le> p_reports p"
  using find_member[of "\<lambda>p. p_id p = i" "posts s" p]
  by (auto simp: hidden_inv_def findPost_def list_all_iff)

lemma hidden_inv_reply:
  "hidden_inv s \<Longrightarrow> findReply i (replies s) = Some r \<Longrightarrow> r_status r = ''hidden'' \<Longrightarrow> 3 \<le> r_reports r"
  using find_member[of "\<lambda>r. r_id r = i" "replies s" r]
  by (auto simp: hidden_inv_def findReply_def list_all_iff)

lemma reportTimes_post:
  "findPost i (posts s) = Some p \<Longrightarrow>
   findPost i (posts (reportTimes n usr (Some ''post'') i s)) =
     Some (p\<lparr>p_reports := p_reports p + int n,
             p_status := (if 0 < n \<and> 3 \<le> p_reports p + int n then ''hidden'' else p_status p)\<rparr>)"
proof (induction n arbitrary: s p)
  case 0
  then show ?case by simp
next
  case (Suc n)
  let ?p1 = "p\<lparr>p_reports := p_reports p + 1,
             p_status := (if 3 \<le> p_reports p + 1 then ''hidden'' else p_status p)\<rparr>"
  from Suc.prems have "findPost i (posts (snd (report usr (Some ''post'') i s))) = Some ?p1"
    by (simp add: report_def reportPost_present)
  from Suc.IH[OF this] show ?case by (auto simp: algebra_simps)
qed

lemma reportTimes_reply:
  "ty \<noteq> Some ''post'' \<Longrightarrow> findReply i (replies s) = Some r \<Longrightarrow>
   findReply i (replies (reportTimes n usr ty i s)) =
     Some (r\<lparr>r_reports := r_reports r + int n,
             r_status := (if 0 < n \<and> 3 \<le> r_reports r + int n then ''hidden'' else r_status r)\<rparr>)"
proof (induction n arbitrary: s r)
  case 0
  then show ?case by simp
next
  case (Suc n)
  let ?r1 = "r\<lparr>r_reports := r_reports r + 1,
             r_status := (if 3 \<le> r_reports r + 1 then ''hidden'' else r_status r)\<rparr>"
  from Suc.prems have "findReply i (replies (snd (report usr ty i s))) = Some ?r1"
    by (simp add: report_def reportReply_present)
  from Suc.IH[OF Suc.prems(1) this] show ?case by (auto simp: algebra_simps)
qed

subsection \<open>Routes\<close>

lemma handle_PostPost_posts:
  "posts (snd (handle lc adminKey now (PostPost key mood t room) s)) = posts s \<or>
   (\<exists>p. posts (snd (handle lc adminKey now (PostPost key mood t room) s)) = posts s @ [p] \<and>
        p_room p = assignedRoom room)"
proof (cases "authUser now key s")
  case (Pair r s1)
  then have f: "posts s1 = posts s" using authUser_frame by blast
  show ?thesis
  proof (cases r)
    case (Inl resp)
    with Pair f show ?thesis by (simp add: withAuth_def)
  next
    case (Inr usr)
    with Pair f createPost_posts [of lc now usr mood t room s1] show ?thesis
      by (auto simp: withAuth_def)
  qed
qed

lemma handle_GetRandom_empty:
  "keyPattern_test k \<Longrightarrow>
   (case findUser k (users s) of None \<Rightarrow> True | Some u \<Rightarrow> \<not> u_isBanned u) \<Longrightarrow>
   candidates k room (posts s) = [] \<Longrightarrow>
   fst (handle lc adminKey now (GetRandom (Some k) room rnd) s) = Inr (204, NoBody)"
proof -
  assume a: "keyPattern_test k"
    "case findUser k (users s) of None \<Rightarrow> True | Some u \<Rightarrow> \<not> u_isBanned u"
    and c: "candidates k room (posts s) = []"
  from a obtain usr s1 where u: "authUser now (Some k) s = (Inr usr, s1)" "u_deviceToken usr = k"
      "posts s1 = posts s"
    using authUser_admit [of k s now] by blast
  with c getRandom_empty [of usr room s1 rnd] show ?thesis by (simp add: withAuth_def)
qed

lemma getRandom_draw:
  "n < length (pool (u_deviceToken usr) room (posts s)) \<Longrightarrow>
   getRandom n usr room s = (Inr (200, PostBody (pool (u_deviceToken usr) room (posts s) ! n)), s)"
  by (simp add: getRandom_def aggregate_def sample1_any)

subsection \<open>Rooms of the store\<close>

lemma rooms_inv_iff: "rooms_inv s \<longleftrightarrow> set (map p_room (posts s)) \<subseteq> set validRooms"
  by (auto simp: rooms_inv_def list_all_iff)

lemma map_updateMany: "(\<And>x. g (f x) = g x) \<Longrightarrow> map g (updateMany P f xs) = map g xs"
  by (simp add: updateMany_def)

lemma createPost_rooms:
  "set (map p_room (posts (snd (createPost lc now usr mood t room s)))) \<subseteq>
     set (map p_room (posts s)) \<union> set validRooms"
  using createPost_posts [of lc now usr mood t room s] assignedRoom_valid [of room] by auto

lemma createReply_rooms:
  "map p_room (posts (snd (createReply now usr postId t s))) = map p_room (posts s)"
  by (cases "(now, usr, postId, t, s)" rule: createReply.cases)
     (auto simp: Let_def map_findOneAndUpdate split: option.splits)

lemma report_rooms: "map p_room (posts (snd (report usr ty i s))) = map p_room (posts s)"
  by (auto simp: report_def reportPost_def reportReply_def Let_def map_findOneAndUpdate
           split: option.splits)

lemma deleteBan_rooms:
  "map p_room (posts (snd (deleteBan adminKey key token deleteContent s))) = map p_room (posts s)"
  by (simp add: deleteBan_def Let_def map_updateMany)

lemma withAuth_rooms:
  assumes "\<And>usr s0. set (map p_room (posts (snd (h usr s0)))) \<subseteq>
             set (map p_room (posts s0)) \<union> set validRooms"
  shows "set (map p_room (posts (snd (withAuth now key h s)))) \<subseteq>
           set (map p_room (posts s)) \<union> set validRooms"
proof (cases "authUser now key s")
  case (Pair r s1)
  then have f: "posts s1 = posts s" using authUser_frame by blast
  show ?thesis
  proof (cases r)
    case (Inl resp)
    with Pair f show ?thesis by (simp add: withAuth_def)
  next
    case (Inr usr)
    with Pair f assms [of usr s1] show ?thesis by (simp add: withAuth_def)
  qed
qed

lemma handle_rooms:
  "set (map p_room (posts (snd (handle lc adminKey now req s)))) \<subseteq>
     set (map p_room (posts s)) \<union> set validRooms"
proof (cases req)
  case (GetMe key)
  have "set (map p_room (posts (snd (withAuth now key getMe s)))) \<subseteq>
          set (map p_room (posts s)) \<union> set validRooms"
    by (rule withAuth_rooms) (simp add: getMe_state)
  with GetMe show ?thesis by simp
next
  case (PostPost key mood txt0 room)
  have "set (map p_room (posts (snd (withAuth now key
            (\<lambda>usr. createPost lc now usr mood txt0 room) s)))) \<subseteq>
          set (map p_room (posts s)) \<union> set validRooms"
    by (rule withAuth_rooms) (rule createPost_rooms)
  with PostPost show ?thesis by simp
next
  case (GetRandom key room rnd)
  have "set (map p_room (posts (snd (withAuth now key (\<lambda>usr. getRandom rnd usr room) s)))) \<subseteq>
          set (map p_room (posts s)) \<union> set validRooms"
    by (rule withAuth_rooms) (simp add: getRandom_state)
  with GetRandom show ?thesis by simp
next
  case (PostReply key postId txt0)
  have "set (map p_room (posts (snd (withAuth now key
            (\<lambda>usr. createReply now usr postId txt0) s)))) \<subseteq>
          set (map p_room (posts s)) \<union> set validRooms"
    by (rule withAuth_rooms) (simp add: createReply_rooms)
  with PostReply show ?thesis by simp
next
  case (PostReport key type i)
  have "set (map p_room (posts (snd (withAuth now key (\<lambda>usr. report usr type i) s)))) \<subseteq>
          set (map p_room (posts s)) \<union> set validRooms"
    by (rule withAuth_rooms) (simp add: report_rooms)
  with PostReport show ?thesis by simp
next
  case (GetMyRoom key)
  have "set (map p_room (posts (snd (withAuth now key getMyRoom s)))) \<subseteq>
          set (map p_room (posts s)) \<union> set validRooms"
    by (rule withAuth_rooms) (simp add: getMyRoom_state)
  with GetMyRoom show ?thesis by simp
next
  case (GetDashboard key)
  then show ?thesis by (simp add: getDashboard_def Let_def)
next
  case (DeleteBan key token deleteContent)
  then show ?thesis by (simp add: deleteBan_rooms)
qed

lemma rooms_inv_handle: "rooms_inv s \<Longrightarrow> rooms_inv (snd (handle lc adminKey now req s))"
  using handle_rooms [of lc adminKey now req s] unfolding rooms_inv_iff by blast

lemma rooms_inv_run: "rooms_inv s \<Longrightarrow> rooms_inv (run lc adminKey reqs s)"
proof (induction reqs arbitrary: s)
  case Nil
  then show ?case by simp
next
  case (Cons a reqs)
  obtain now req where a: "a = (now, req)" by (cases a)
  from Cons show ?case unfolding a by (simp add: rooms_inv_handle)
qed

lemma rooms_inv_empty: "rooms_inv empty_db"
  by (simp add: rooms_inv_def empty_db_def)

subsection \<open>The match stage and eligibility\<close>

lemma eligible_unknown_room:
  "r \<noteq> [] \<Longrightarrow> r \<noteq> ''all'' \<Longrightarrow> \<forall>p \<in> set ps. p_room p \<noteq> r \<Longrightarrow>
   filter (eligible token (Some r)) ps = []"
  by (auto simp: filter_empty_conv eligible_def)

lemma eligible_sole_author:
  "r \<noteq> [] \<Longrightarrow> r \<noteq> ''all'' \<Longrightarrow> \<forall>p \<in> set ps. p_room p = r \<longrightarrow> p_authorToken p = token \<Longrightarrow>
   filter (eligible token (Some r)) ps = []"
  by (auto simp: filter_empty_conv eligible_def)

lemma rooms_inv_unknown:
  "rooms_inv s \<Longrightarrow> r \<notin> set validRooms \<Longrightarrow> \<forall>p \<in> set (posts s). p_room p \<noteq> r"
  by (auto simp: rooms_inv_def list_all_iff)

lemma sorted_take_before_rest:
  "sorted_wrt comes_before ys \<Longrightarrow> mset ys = mset xs \<Longrightarrow> q \<in> set (take n ys) \<Longrightarrow>
   r \<in># mset xs - mset (take n ys) \<Longrightarrow> comes_before q r"
proof -
  assume s: "sorted_wrt comes_before ys" and m: "mset ys = mset xs"
    and q: "q \<in> set (take n ys)" and r: "r \<in># mset xs - mset (take n ys)"
  have "mset xs = mset (take n ys) + mset (drop n ys)"
    using m by (metis append_take_drop_id mset_append)
  with r have "r \<in> set (drop n ys)" by simp
  moreover from s have "sorted_wrt comes_before (take n ys @ drop n ys)" by simp
  ultimately show ?thesis using q unfolding sorted_wrt_append by blast
qed

section \<open>Moderation of text\<close>

lemma includes_str_contains: "includes_str s w = contains_substring s w"
proof (induction s)
  case Nil
  then show ?case by (auto simp: contains_substring_def)
next
  case (Cons c cs)
  show ?case
  proof
    assume "includes_str (c # cs) w"
    then consider "take (length w) (c # cs) = w" | "includes_str cs w" by auto
    then show "contains_substring (c # cs) w"
    proof cases
      case 1
      then have "c # cs = [] @ w @ drop (length w) (c # cs)"
        by (metis append_Nil append_take_drop_id)
      then show ?thesis unfolding contains_substring_def by blast
    next
      case 2
      with Cons obtain b a where "cs = b @ w @ a" by (auto simp: contains_substring_def)
      then have "c # cs = (c # b) @ w @ a" by simp
      then show ?thesis unfolding contains_substring_def by blast
    qed
  next
    assume "contains_substring (c # cs) w"
    then obtain b a where ba: "c # cs = b @ w @ a" by (auto simp: contains_substring_def)
    show "includes_str (c # cs) w"
    proof (cases b)
      case Nil
      with ba have "take (length w) (c # cs) = w" by simp
      then show ?thesis by simp
    next
      case (Cons b1 bs)
      with ba have "cs = bs @ w @ a" by simp
      then have "contains_substring cs w" unfolding contains_substring_def by blast
      with Cons.IH show ?thesis by simp
    qed
  qed
qed

lemma toLowerCase_ascii_die:
  "toLowerCase_ascii ''I want to die today'' = ''i want to die today''"
  by code_simp

lemma toLowerCase_ascii_day: "toLowerCase_ascii ''I had a great day'' = ''i had a great day''"
  by code_simp

lemma toLowerCase_ascii_studied:
  "toLowerCase_ascii ''I Studied all night'' = ''i studied all night''"
  by code_simp

lemma ascii_examples:
  "ascii_text ''I want to die today'' \<and> ascii_text ''I had a great day'' \<and>
   ascii_text ''I Studied all night''"
  by code_simp

lemma denylist_die:
  "list_ex (\<lambda>word. includes_str ''i want to die today'' word) prohibited"
  by code_simp

lemma denylist_day:
  "\<not> list_ex (\<lambda>word. includes_str ''i had a great day'' word) prohibited"
  by code_simp

lemma denylist_studied:
  "list_ex (\<lambda>word. includes_str ''i studied all night'' word) prohibited"
  by code_simp

text \<open>
  C5. For every lowercasing \<open>lc\<close>, \<open>moderateText\<close> returns false exactly when the
  lowercased text contains one of the five denylisted words as a substring, wherever it
  occurs. For every lowercasing that does to ASCII text what \<^verbatim>\<open>toLowerCase\<close> does to
  it: ``I want to die today'' is rejected, ``I had a great day'' is accepted, and
  ``I Studied all night'' is rejected although ``die'' is only part of a word there.
\<close>

theorem moderateText_denylist:
  "(moderateText lc text = False \<longleftrightarrow>
      (\<exists>w \<in> set prohibited. contains_substring (lc text) w)) \<and>
   prohibited = [''suicide'', ''kill myself'', ''die'', ''murder'', ''hate you''] \<and>
   ((\<forall>s. ascii_text s \<longrightarrow> lc s = toLowerCase_ascii s) \<longrightarrow>
      moderateText lc ''I want to die today'' = False \<and>
      moderateText lc ''I had a great day'' = True \<and>
      moderateText lc ''I Studied all night'' = False)"
proof (intro conjI impI)
  show "moderateText lc text = False \<longleftrightarrow>
      (\<exists>w \<in> set prohibited. contains_substring (lc text) w)"
    by (simp add: moderateText_def list_ex_iff includes_str_contains)
next
  show "prohibited = [''suicide'', ''kill myself'', ''die'', ''murder'', ''hate you'']"
    by (simp add: prohibited_def)
next
  assume a: "\<forall>s. ascii_text s \<longrightarrow> lc s = toLowerCase_ascii s"
  with ascii_examples have "lc ''I want to die today'' = ''i want to die today''"
    by (simp add: toLowerCase_ascii_die)
  then show "moderateText lc ''I want to die today'' = False"
    using denylist_die by (simp add: moderateText_def)
  from a ascii_examples have "lc ''I had a great day'' = ''i had a great day''"
    by (simp add: toLowerCase_ascii_day)
  then show "moderateText lc ''I had a great day'' = True"
    using denylist_day by (simp add: moderateText_def)
  from a ascii_examples have "lc ''I Studied all night'' = ''i studied all night''"
    by (simp add: toLowerCase_ascii_studied)
  then show "moderateText lc ''I Studied all night'' = False"
    using denylist_studied by (simp add: moderateText_def)
qed

text \<open>
  With the ASCII lowercasing itself; and with a lowercasing that turns the three bytes
  of the Kelvin sign into k, as the built-in does, a text that spells ``kill myself''
  with that sign is rejected.
\<close>

theorem moderateText_denylist_witness:
  "moderateText toLowerCase_ascii ''I want to die today'' = False \<and>
   moderateText toLowerCase_ascii ''I had a great day'' = True \<and>
   moderateText toLowerCase_ascii ''kill MYSELF'' = False \<and>
   (\<exists>w \<in> set prohibited. contains_substring (toLowerCase_ascii ''kill MYSELF'') w) \<and>
   moderateText (\<lambda>s. if s = [char_of (226::nat), char_of (132::nat), char_of (170::nat)] @ ''ill myself''
                     then ''kill myself'' else toLowerCase_ascii s)
     ([char_of (226::nat), char_of (132::nat), char_of (170::nat)] @ ''ill myself'') = False"
proof -
  have 1: "\<forall>s. ascii_text s \<longrightarrow> toLowerCase_ascii s = toLowerCase_ascii s" by simp
  have 2: "moderateText toLowerCase_ascii ''kill MYSELF'' = False" by code_simp
  have 3: "\<exists>w \<in> set prohibited. contains_substring ''kill myself'' w"
    unfolding contains_substring_def prohibited_def
    by (rule bexI [of _ "''kill myself''"], rule exI [of _ "[]"], rule exI [of _ "[]"]) simp_all
  from 1 2 3
    moderateText_denylist [of toLowerCase_ascii "''kill MYSELF''"]
    moderateText_denylist [of "\<lambda>s. if s = [char_of (226::nat), char_of (132::nat), char_of (170::nat)] @ ''ill myself''
                     then ''kill myself'' else toLowerCase_ascii s"
      "[char_of (226::nat), char_of (132::nat), char_of (170::nat)] @ ''ill myself''"]
  show ?thesis by simp
qed

section \<open>Identity resolution\<close>

lemma matches_Lit: "matches (map Lit xs @ ts) k \<longleftrightarrow> (\<exists>r. k = xs @ r \<and> matches ts r)"
proof (induction xs arbitrary: k)
  case Nil then show ?case by simp
next
  case (Cons x xs)
  then show ?case by (cases k) auto
qed

lemma matches_class: "matches (replicate n UpperAlnum @ ts) k \<longleftrightarrow>
   (\<exists>g r. k = g @ r \<and> length g = n \<and> list_all upper_alnum g \<and> matches ts r)"
proof (induction n arbitrary: k)
  case 0 then show ?case by simp
next
  case (Suc n)
  show ?case
  proof (cases k)
    case Nil then show ?thesis by simp
  next
    case (Cons c cs)
    show ?thesis
    proof
      assume "matches (replicate (Suc n) UpperAlnum @ ts) k"
      with Cons have c: "upper_alnum c" and m: "matches (replicate n UpperAlnum @ ts) cs" by auto
      from m Suc.IH obtain g r where "cs = g @ r" "length g = n" "list_all upper_alnum g" "matches ts r"
        by blast
      with c Cons have "k = (c # g) @ r \<and> length (c # g) = Suc n \<and> list_all upper_alnum (c # g) \<and> matches ts r"
        by simp
      then show "\<exists>g r. k = g @ r \<and> length g = Suc n \<and> list_all upper_alnum g \<and> matches ts r" by blast
    next
      assume "\<exists>g r. k = g @ r \<and> length g = Suc n \<and> list_all upper_alnum g \<and> matches ts r"
      then obtain g r where gr: "k = g @ r" "length g = Suc n" "list_all upper_alnum g" "matches ts r" by blast
      then obtain g1 gs where g: "g = g1 # gs" by (cases g) auto
      with gr Cons have "c = g1" "cs = gs @ r" "length gs = n" "list_all upper_alnum gs" "upper_alnum g1" by auto
      with gr(4) Suc.IH[of cs] Cons show "matches (replicate (Suc n) UpperAlnum @ ts) k" by auto
    qed
  qed
qed

lemma matches_Nil: "matches [] k \<longleftrightarrow> k = []"
  by (cases k) auto

lemma matches_class_end: "matches (replicate n UpperAlnum) k \<longleftrightarrow> (length k = n \<and> list_all upper_alnum k)"
  using matches_class[of n "[]" k] by (auto simp: matches_Nil)

lemma matches_dash: "matches (Lit d # ts) k \<longleftrightarrow> (\<exists>r. k = d # r \<and> matches ts r)"
  by (cases k) auto

lemma keyPattern_test_well_formed: "keyPattern_test k = well_formed_key k"
proof
  assume "keyPattern_test k"
  then obtain g1 g2 g3 where "k = ''VOID-'' @ g1 @ ''-'' @ g2 @ ''-'' @ g3"
    "key_group g1" "key_group g2" "key_group g3"
    unfolding keyPattern_test_def keyPattern_def key_group_def
    by (simp only: matches_Lit matches_class matches_dash matches_class_end append_Cons append_Nil)
       auto
  then show "well_formed_key k" unfolding well_formed_key_def by blast
next
  assume "well_formed_key k"
  then obtain g1 g2 g3 where k: "k = ''VOID-'' @ g1 @ ''-'' @ g2 @ ''-'' @ g3"
    and g: "key_group g1" "key_group g2" "key_group g3"
    unfolding well_formed_key_def by blast
  from g(3) have m3: "matches (replicate 4 UpperAlnum) g3"
    by (simp add: matches_class_end key_group_def)
  then have m3': "matches ([Lit (CHR ''-'')] @ replicate 4 UpperAlnum) (''-'' @ g3)" by simp
  from g(2) m3' have m2: "matches (replicate 4 UpperAlnum @ [Lit (CHR ''-'')] @ replicate 4 UpperAlnum) (g2 @ ''-'' @ g3)"
    unfolding matches_class key_group_def by blast
  then have m2': "matches ([Lit (CHR ''-'')] @ replicate 4 UpperAlnum @ [Lit (CHR ''-'')] @ replicate 4 UpperAlnum) (''-'' @ g2 @ ''-'' @ g3)"
    by simp
  from g(1) m2' have m1: "matches (replicate 4 UpperAlnum @ [Lit (CHR ''-'')] @ replicate 4 UpperAlnum @ [Lit (CHR ''-'')] @ replicate 4 UpperAlnum) (g1 @ ''-'' @ g2 @ ''-'' @ g3)"
    unfolding matches_class[of 4 "[Lit (CHR ''-'')] @ replicate 4 UpperAlnum @ [Lit (CHR ''-'')] @ replicate 4 UpperAlnum"] key_group_def by blast
  then have "matches (map Lit ''VOID-'' @ replicate 4 UpperAlnum @ [Lit (CHR ''-'')] @ replicate 4 UpperAlnum @ [Lit (CHR ''-'')] @ replicate 4 UpperAlnum) (''VOID-'' @ g1 @ ''-'' @ g2 @ ''-'' @ g3)"
    unfolding matches_Lit by blast
  with k show "keyPattern_test k" unfolding keyPattern_test_def keyPattern_def by simp
qed

lemma authUser_malformed:
  "\<not> keyPattern_test k \<Longrightarrow> \<exists>msg. authUser now (Some k) s = (Inl (401, ErrorBody msg), s)"
  by (simp add: authUser_def)

lemma authUser_fresh:
  "keyPattern_test k \<Longrightarrow> findUser k (users s) = None \<Longrightarrow>
   authUser now (Some k) s =
     (Inr \<lparr>u_deviceToken = k, u_lightPoints = 0, u_isBanned = False, u_createdAt = now\<rparr>,
      s\<lparr>users := users s @
          [\<lparr>u_deviceToken = k, u_lightPoints = 0, u_isBanned = False, u_createdAt = now\<rparr>]\<rparr>)"
proof -
  assume a: "keyPattern_test k" "findUser k (users s) = None"
  then have "k \<noteq> []" by (auto simp: keyPattern_test_def keyPattern_def)
  with a show ?thesis by (simp add: authUser_def Let_def)
qed

lemma handle_keys_inv:
  "list_all (\<lambda>u. well_formed_key (u_deviceToken u)) (users s) \<Longrightarrow>
   list_all (\<lambda>u. well_formed_key (u_deviceToken u)) (users (snd (handle lc adminKey now req s)))"
proof -
  assume a: "list_all (\<lambda>u. well_formed_key (u_deviceToken u)) (users s)"
  have eq: "list_all (\<lambda>u. well_formed_key (u_deviceToken u)) us =
            list_all well_formed_key (map u_deviceToken us)" for us :: "user list"
    by (simp add: list_all_iff)
  from handle_tokens[of lc adminKey now req s] a show ?thesis
    unfolding eq by (auto simp: keyPattern_test_well_formed)
qed

text \<open>
  C4. A key that does not have the form \<^verbatim>\<open>VOID-XXXX-XXXX-XXXX\<close> (the prefix and three
  groups of four uppercase alphanumerics) is answered with 401 by the middleware, the
  store is left as it was and the handler behind the middleware does not run. A
  well-formed key that no user has yet creates a user with zero points that is not
  banned. No request ever adds a user with a malformed key to the store.
\<close>

theorem authUser_key_format:
  "(\<not> well_formed_key k \<longrightarrow>
      (\<exists>msg. authUser now (Some k) s = (Inl (401, ErrorBody msg), s)) \<and>
      (\<exists>msg. withAuth now (Some k) handler s = (Inr (401, ErrorBody msg), s))) \<and>
   (well_formed_key k \<and> findUser k (users s) = None \<longrightarrow>
      authUser now (Some k) s =
        (Inr \<lparr>u_deviceToken = k, u_lightPoints = 0, u_isBanned = False, u_createdAt = now\<rparr>,
         s\<lparr>users := users s @
            [\<lparr>u_deviceToken = k, u_lightPoints = 0, u_isBanned = False, u_createdAt = now\<rparr>]\<rparr>)) \<and>
   (list_all (\<lambda>u. well_formed_key (u_deviceToken u)) (users s) \<longrightarrow>
      list_all (\<lambda>u. well_formed_key (u_deviceToken u)) (users (snd (handle lc adminKey now req s))))"
proof (intro conjI impI)
  assume "\<not> well_formed_key k"
  then obtain msg where m: "authUser now (Some k) s = (Inl (401, ErrorBody msg), s)"
    using authUser_malformed[of k now s] by (auto simp: keyPattern_test_well_formed)
  then show "\<exists>msg. authUser now (Some k) s = (Inl (401, ErrorBody msg), s)" by blast
  from m show "\<exists>msg. withAuth now (Some k) handler s = (Inr (401, ErrorBody msg), s)"
    by (simp add: withAuth_def)
next
  assume "well_formed_key k \<and> findUser k (users s) = None"
  then show "authUser now (Some k) s =
        (Inr \<lparr>u_deviceToken = k, u_lightPoints = 0, u_isBanned = False, u_createdAt = now\<rparr>,
         s\<lparr>users := users s @
            [\<lparr>u_deviceToken = k, u_lightPoints = 0, u_isBanned = False, u_createdAt = now\<rparr>]\<rparr>)"
    using authUser_fresh[of k s now] by (simp add: keyPattern_test_well_formed)
next
  assume "list_all (\<lambda>u. well_formed_key (u_deviceToken u)) (users s)"
  then show "list_all (\<lambda>u. well_formed_key (u_deviceToken u)) (users (snd (handle lc adminKey now req s)))"
    by (rule handle_keys_inv)
qed

theorem authUser_key_format_witness:
  "(\<exists>msg. authUser 7 (Some ''VOID-abcd-1234-EFGH'') empty_db =
            (Inl (401, ErrorBody msg), empty_db)) \<and>
   authUser 7 (Some ''VOID-AB12-CD34-EF56'') empty_db =
     (Inr \<lparr>u_deviceToken = ''VOID-AB12-CD34-EF56'', u_lightPoints = 0, u_isBanned = False,
            u_createdAt = 7\<rparr>,
      empty_db\<lparr>users := users empty_db @
        [\<lparr>u_deviceToken = ''VOID-AB12-CD34-EF56'', u_lightPoints = 0, u_isBanned = False,
           u_createdAt = 7\<rparr>]\<rparr>)"
proof -
  have "\<not> keyPattern_test ''VOID-abcd-1234-EFGH''" by code_simp
  then have bad: "\<not> well_formed_key ''VOID-abcd-1234-EFGH''"
    by (simp add: keyPattern_test_well_formed)
  have "keyPattern_test ''VOID-AB12-CD34-EF56''" by code_simp
  then have good: "well_formed_key ''VOID-AB12-CD34-EF56''"
    by (simp add: keyPattern_test_well_formed)
  have unseen: "findUser ''VOID-AB12-CD34-EF56'' (users empty_db) = None"
    by (simp add: findUser_def empty_db_def)
  from bad good unseen
    authUser_key_format [of "''VOID-abcd-1234-EFGH''" 7 empty_db getMe toLowerCase_ascii "''k''" "GetMe None"]
    authUser_key_format [of "''VOID-AB12-CD34-EF56''" 7 empty_db getMe toLowerCase_ascii "''k''" "GetMe None"]
  show ?thesis by blast
qed

section \<open>Rewards\<close>

text \<open>
  C8. Handling a request changes the points of an identity by exactly the reward of
  that request: one point for a post the identity created, five for a reply it created,
  nothing for any other request and nothing for the requests of other identities. Over a
  run of requests the points grow by the sum of the rewards, so a post and a reply by an
  identity add six points however the requests of others are interleaved, and points
  never decrease.
\<close>

theorem reward_policy:
  "lightPointsOf k (snd (handle lc adminKey now req s)) =
     lightPointsOf k s + reward k req (fst (handle lc adminKey now req s)) \<and>
   (fst (handle lc adminKey now (PostPost (Some k) mood tx room) s) = Inr (201, PostBody p) \<longrightarrow>
      lightPointsOf k (snd (handle lc adminKey now (PostPost (Some k) mood tx room) s)) =
        lightPointsOf k s + 1) \<and>
   (fst (handle lc adminKey now (PostReply (Some k) postId tx) s) = Inr (200, SuccessBody) \<longrightarrow>
      lightPointsOf k (snd (handle lc adminKey now (PostReply (Some k) postId tx) s)) =
        lightPointsOf k s + 5) \<and>
   (k' \<noteq> k \<longrightarrow>
      lightPointsOf k (snd (handle lc adminKey now (PostPost (Some k') mood tx room) s)) =
        lightPointsOf k s \<and>
      lightPointsOf k (snd (handle lc adminKey now (PostReply (Some k') postId tx) s)) =
        lightPointsOf k s) \<and>
   lightPointsOf k s \<le> lightPointsOf k (snd (handle lc adminKey now req s)) \<and>
   lightPointsOf k (run lc adminKey reqs s) = lightPointsOf k s + earned lc k adminKey reqs s \<and>
   lightPointsOf k s \<le> lightPointsOf k (run lc adminKey reqs s)"
proof (intro conjI impI)
  show "lightPointsOf k (snd (handle lc adminKey now req s)) =
     lightPointsOf k s + reward k req (fst (handle lc adminKey now req s))"
    by (rule handle_points)
next
  assume "fst (handle lc adminKey now (PostPost (Some k) mood tx room) s) = Inr (201, PostBody p)"
  then show "lightPointsOf k (snd (handle lc adminKey now (PostPost (Some k) mood tx room) s)) =
        lightPointsOf k s + 1"
    using handle_points [of k lc adminKey now "PostPost (Some k) mood tx room" s] by simp
next
  assume "fst (handle lc adminKey now (PostReply (Some k) postId tx) s) = Inr (200, SuccessBody)"
  then show "lightPointsOf k (snd (handle lc adminKey now (PostReply (Some k) postId tx) s)) =
        lightPointsOf k s + 5"
    using handle_points [of k lc adminKey now "PostReply (Some k) postId tx" s] by simp
next
  assume "k' \<noteq> k"
  then show "lightPointsOf k (snd (handle lc adminKey now (PostPost (Some k') mood tx room) s)) =
        lightPointsOf k s"
    using handle_points [of k lc adminKey now "PostPost (Some k') mood tx room" s]
      reward_other [of "Some k'" k mood tx room _ postId]
    by simp
next
  assume "k' \<noteq> k"
  then show "lightPointsOf k (snd (handle lc adminKey now (PostReply (Some k') postId tx) s)) =
        lightPointsOf k s"
    using handle_points [of k lc adminKey now "PostReply (Some k') postId tx" s]
      reward_other [of "Some k'" k mood tx room _ postId]
    by simp
next
  show "lightPointsOf k s \<le> lightPointsOf k (snd (handle lc adminKey now req s))"
    using handle_points [of k lc adminKey now req s]
      reward_nonneg [of k req "fst (handle lc adminKey now req s)"]
    by simp
next
  show "lightPointsOf k (run lc adminKey reqs s) = lightPointsOf k s + earned lc k adminKey reqs s"
    by (rule run_points)
next
  show "lightPointsOf k s \<le> lightPointsOf k (run lc adminKey reqs s)"
    using run_points [of k lc adminKey reqs s] earned_nonneg [of lc k adminKey reqs s] by simp
qed

text \<open>
  A run in which two identities each create a post and reply to the other's post, in
  alternation, and one of them files a report: each has six points at the end.
\<close>

theorem reward_policy_witness:
  "lightPointsOf ''VOID-AAAA-AAAA-AAAA''
     (run toLowerCase_ascii ''secret123''
        [(1, PostPost (Some ''VOID-BBBB-BBBB-BBBB'') (Some ''sad'') (Some ''hello'') None),
         (2, PostPost (Some ''VOID-AAAA-AAAA-AAAA'') (Some ''lost'') (Some ''anyone?'')
               (Some ''life'')),
         (3, PostReply (Some ''VOID-BBBB-BBBB-BBBB'') (Some 1) (Some ''I hear you'')),
         (4, PostReply (Some ''VOID-AAAA-AAAA-AAAA'') (Some 0) (Some ''there there'')),
         (5, PostReport (Some ''VOID-BBBB-BBBB-BBBB'') (Some ''post'') 0)]
        empty_db) = 6 \<and>
   fst (handle toLowerCase_ascii ''secret123'' 2
          (PostPost (Some ''VOID-AAAA-AAAA-AAAA'') (Some ''lost'') (Some ''anyone?'')
             (Some ''life''))
          empty_db) =
     Inr (201, PostBody \<lparr>p_id = 0, p_mood = ''lost'', p_text = ''anyone?'', p_room = ''life'',
        p_authorToken = ''VOID-AAAA-AAAA-AAAA'', p_status = ''active'', p_reports = 0,
        p_replyCount = 0, p_createdAt = 2\<rparr>) \<and>
   lightPointsOf ''VOID-AAAA-AAAA-AAAA''
     (snd (handle toLowerCase_ascii ''secret123'' 2
          (PostPost (Some ''VOID-AAAA-AAAA-AAAA'') (Some ''lost'') (Some ''anyone?'')
             (Some ''life''))
          empty_db)) = 1"
proof -
  have e: "earned toLowerCase_ascii ''VOID-AAAA-AAAA-AAAA'' ''secret123''
        [(1, PostPost (Some ''VOID-BBBB-BBBB-BBBB'') (Some ''sad'') (Some ''hello'') None),
         (2, PostPost (Some ''VOID-AAAA-AAAA-AAAA'') (Some ''lost'') (Some ''anyone?'')
               (Some ''life'')),
         (3, PostReply (Some ''VOID-BBBB-BBBB-BBBB'') (Some 1) (Some ''I hear you'')),
         (4, PostReply (Some ''VOID-AAAA-AAAA-AAAA'') (Some 0) (Some ''there there'')),
         (5, PostReport (Some ''VOID-BBBB-BBBB-BBBB'') (Some ''post'') 0)]
        empty_db = 6"
    by code_simp
  have z: "lightPointsOf ''VOID-AAAA-AAAA-AAAA'' empty_db = 0"
    by (simp add: lightPointsOf_def findUser_def empty_db_def)
  have f: "fst (handle toLowerCase_ascii ''secret123'' 2
          (PostPost (Some ''VOID-AAAA-AAAA-AAAA'') (Some ''lost'') (Some ''anyone?'')
             (Some ''life''))
          empty_db) =
     Inr (201, PostBody \<lparr>p_id = 0, p_mood = ''lost'', p_text = ''anyone?'', p_room = ''life'',
        p_authorToken = ''VOID-AAAA-AAAA-AAAA'', p_status = ''active'', p_reports = 0,
        p_replyCount = 0, p_createdAt = 2\<rparr>)"
    by code_simp
  from e z f
    reward_policy [of "''VOID-AAAA-AAAA-AAAA''" toLowerCase_ascii "''secret123''" 2 "GetMe None" empty_db
      "Some ''lost''" "Some ''anyone?''" "Some ''life''"
      "\<lparr>p_id = 0, p_mood = ''lost'', p_text = ''anyone?'', p_room = ''life'',
        p_authorToken = ''VOID-AAAA-AAAA-AAAA'', p_status = ''active'', p_reports = 0,
        p_replyCount = 0, p_createdAt = 2\<rparr>" None "''VOID-BBBB-BBBB-BBBB''"
      "[(1, PostPost (Some ''VOID-BBBB-BBBB-BBBB'') (Some ''sad'') (Some ''hello'') None),
         (2, PostPost (Some ''VOID-AAAA-AAAA-AAAA'') (Some ''lost'') (Some ''anyone?'')
               (Some ''life'')),
         (3, PostReply (Some ''VOID-BBBB-BBBB-BBBB'') (Some 1) (Some ''I hear you'')),
         (4, PostReply (Some ''VOID-AAAA-AAAA-AAAA'') (Some 0) (Some ''there there'')),
         (5, PostReport (Some ''VOID-BBBB-BBBB-BBBB'') (Some ''post'') 0)]"]
  show ?thesis by simp
qed

section \<open>Rooms\<close>

text \<open>
  C6. The room stored with a post is always one of general, love, work, family and
  life: a room of that set is stored as it was sent, every other value and a missing
  room are stored as general. The request is answered with 201 whatever the room is,
  and whatever a post request adds to the store carries that room.
\<close>

theorem room_coercion:
  "assignedRoom room \<in> {''general'', ''love'', ''work'', ''family'', ''life''} \<and>
   (r \<in> {''general'', ''love'', ''work'', ''family'', ''life''} \<longrightarrow> assignedRoom (Some r) = r) \<and>
   (r \<notin> {''general'', ''love'', ''work'', ''family'', ''life''} \<longrightarrow>
      assignedRoom (Some r) = ''general'') \<and>
   assignedRoom None = ''general'' \<and>
   (mood \<noteq> [] \<and> tx \<noteq> [] \<and> moderateText lc tx \<longrightarrow>
      (\<exists>p. fst (createPost lc now usr (Some mood) (Some tx) room s) = Inr (201, PostBody p) \<and>
           posts (snd (createPost lc now usr (Some mood) (Some tx) room s)) = posts s @ [p] \<and>
           p_room p = assignedRoom room)) \<and>
   (posts (snd (createPost lc now usr mood' tx' room s)) = posts s \<or>
      (\<exists>p. posts (snd (createPost lc now usr mood' tx' room s)) = posts s @ [p] \<and>
           p_room p = assignedRoom room)) \<and>
   (posts (snd (handle lc adminKey now (PostPost key mood' tx' room) s)) = posts s \<or>
      (\<exists>p. posts (snd (handle lc adminKey now (PostPost key mood' tx' room) s)) = posts s @ [p] \<and>
           p_room p = assignedRoom room))"
proof (intro conjI impI)
  show "assignedRoom room \<in> {''general'', ''love'', ''work'', ''family'', ''life''}"
    using assignedRoom_valid [of room] by (simp add: validRooms_def)
next
  assume "r \<in> {''general'', ''love'', ''work'', ''family'', ''life''}"
  then show "assignedRoom (Some r) = r" by (auto simp: assignedRoom_def validRooms_def)
next
  assume "r \<notin> {''general'', ''love'', ''work'', ''family'', ''life''}"
  then show "assignedRoom (Some r) = ''general''" by (simp add: assignedRoom_def validRooms_def)
next
  show "assignedRoom None = ''general''" by (simp add: assignedRoom_def)
next
  assume "mood \<noteq> [] \<and> tx \<noteq> [] \<and> moderateText lc tx"
  then show "\<exists>p. fst (createPost lc now usr (Some mood) (Some tx) room s) = Inr (201, PostBody p) \<and>
           posts (snd (createPost lc now usr (Some mood) (Some tx) room s)) = posts s @ [p] \<and>
           p_room p = assignedRoom room"
    using createPost_created [of mood tx lc now usr room s] by blast
next
  show "posts (snd (createPost lc now usr mood' tx' room s)) = posts s \<or>
      (\<exists>p. posts (snd (createPost lc now usr mood' tx' room s)) = posts s @ [p] \<and>
           p_room p = assignedRoom room)"
    using createPost_posts [of lc now usr mood' tx' room s] by blast
next
  show "posts (snd (handle lc adminKey now (PostPost key mood' tx' room) s)) = posts s \<or>
      (\<exists>p. posts (snd (handle lc adminKey now (PostPost key mood' tx' room) s)) = posts s @ [p] \<and>
           p_room p = assignedRoom room)"
    by (rule handle_PostPost_posts)
qed

theorem room_coercion_witness:
  "assignedRoom (Some ''career'') = ''general'' \<and>
   assignedRoom (Some ''love'') = ''love'' \<and>
   (\<exists>p. fst (createPost toLowerCase_ascii 5 alice (Some ''lost'') (Some ''hello there'') (Some ''nonexistent'')
              small_db) = Inr (201, PostBody p) \<and>
        posts (snd (createPost toLowerCase_ascii 5 alice (Some ''lost'') (Some ''hello there'')
              (Some ''nonexistent'') small_db)) = posts small_db @ [p] \<and>
        p_room p = ''general'')"
proof -
  have m: "moderateText toLowerCase_ascii ''hello there''" by code_simp
  have "assignedRoom (Some ''nonexistent'') = ''general''" by code_simp
  with m
    room_coercion [of "Some ''nonexistent''" "''career''" "''lost''" "''hello there''" toLowerCase_ascii 5 alice
      small_db None None]
    room_coercion [of "Some ''nonexistent''" "''love''" "''lost''" "''hello there''" toLowerCase_ascii 5 alice
      small_db None None]
  show ?thesis by simp
qed

section \<open>Replies are not moderated\<close>

text \<open>
  C10. A requester with a well-formed key who is not banned and replies to an existing
  post with a text that is not empty gets the reply stored, whatever the text is; the
  same text is refused with 400 when it is sent as a post and \<open>moderateText\<close> rejects it.
\<close>

theorem reply_not_moderated:
  "(keyPattern_test k \<and> (case findUser k (users s) of None \<Rightarrow> True | Some u \<Rightarrow> \<not> u_isBanned u) \<and>
    tx \<noteq> [] \<and> findPost i (posts s) = Some p \<longrightarrow>
      fst (handle lc adminKey now (PostReply (Some k) (Some i) (Some tx)) s) = Inr (200, SuccessBody) \<and>
      replies (snd (handle lc adminKey now (PostReply (Some k) (Some i) (Some tx)) s)) = replies s @
        [\<lparr>r_id = next_id s, r_postId = i, r_text = tx, r_responderToken = k,
          r_isAuthorReply = (p_authorToken p = k), r_status = ''visible'',
          r_reports = 0, r_createdAt = now\<rparr>]) \<and>
   (keyPattern_test k \<and> (case findUser k (users s) of None \<Rightarrow> True | Some u \<Rightarrow> \<not> u_isBanned u) \<and>
    mood \<noteq> [] \<and> tx \<noteq> [] \<and> \<not> moderateText lc tx \<longrightarrow>
      fst (handle lc adminKey now (PostPost (Some k) (Some mood) (Some tx) room) s) =
        Inr (400, ErrorBody ''Harmful content detected'') \<and>
      posts (snd (handle lc adminKey now (PostPost (Some k) (Some mood) (Some tx) room) s)) = posts s)"
proof (intro conjI impI)
  assume a: "keyPattern_test k \<and> (case findUser k (users s) of None \<Rightarrow> True | Some u \<Rightarrow> \<not> u_isBanned u) \<and>
    tx \<noteq> [] \<and> findPost i (posts s) = Some p"
  then obtain usr s' where u: "authUser now (Some k) s = (Inr usr, s')" "u_deviceToken usr = k"
      "posts s' = posts s" "replies s' = replies s" "next_id s' = next_id s"
    using authUser_admit [of k s now] by blast
  from a u createReply_stored [of tx i s' p now usr]
  show "fst (handle lc adminKey now (PostReply (Some k) (Some i) (Some tx)) s) = Inr (200, SuccessBody)"
    by (simp add: withAuth_def)
  from a u createReply_stored [of tx i s' p now usr]
  show "replies (snd (handle lc adminKey now (PostReply (Some k) (Some i) (Some tx)) s)) = replies s @
        [\<lparr>r_id = next_id s, r_postId = i, r_text = tx, r_responderToken = k,
          r_isAuthorReply = (p_authorToken p = k), r_status = ''visible'',
          r_reports = 0, r_createdAt = now\<rparr>]"
    by (simp add: withAuth_def)
next
  assume a: "keyPattern_test k \<and> (case findUser k (users s) of None \<Rightarrow> True | Some u \<Rightarrow> \<not> u_isBanned u) \<and>
    mood \<noteq> [] \<and> tx \<noteq> [] \<and> \<not> moderateText lc tx"
  then obtain usr s' where u: "authUser now (Some k) s = (Inr usr, s')" "u_deviceToken usr = k"
      "posts s' = posts s" "replies s' = replies s" "next_id s' = next_id s"
    using authUser_admit [of k s now] by blast
  from a u createPost_harmful [of mood tx lc now usr room s']
  show "fst (handle lc adminKey now (PostPost (Some k) (Some mood) (Some tx) room) s) =
        Inr (400, ErrorBody ''Harmful content detected'')"
    by (simp add: withAuth_def)
  from a u createPost_harmful [of mood tx lc now usr room s']
  show "posts (snd (handle lc adminKey now (PostPost (Some k) (Some mood) (Some tx) room) s)) = posts s"
    by (simp add: withAuth_def)
qed

theorem reply_not_moderated_witness:
  "moderateText toLowerCase_ascii ''just die'' = False \<and>
   fst (handle toLowerCase_ascii ''secret123'' 9
          (PostReply (Some ''VOID-AAAA-AAAA-AAAA'') (Some 0) (Some ''just die'')) small_db) =
     Inr (200, SuccessBody) \<and>
   replies (snd (handle toLowerCase_ascii ''secret123'' 9
          (PostReply (Some ''VOID-AAAA-AAAA-AAAA'') (Some 0) (Some ''just die'')) small_db)) =
     [alices_reply,
      \<lparr>r_id = 2, r_postId = 0, r_text = ''just die'',
        r_responderToken = ''VOID-AAAA-AAAA-AAAA'', r_isAuthorReply = False,
        r_status = ''visible'', r_reports = 0, r_createdAt = 9\<rparr>] \<and>
   fst (handle toLowerCase_ascii ''secret123'' 9
          (PostPost (Some ''VOID-AAAA-AAAA-AAAA'') (Some ''sad'') (Some ''just die'') None)
          small_db) = Inr (400, ErrorBody ''Harmful content detected'')"
proof -
  have k: "keyPattern_test ''VOID-AAAA-AAAA-AAAA''" by code_simp
  have u: "(case findUser ''VOID-AAAA-AAAA-AAAA'' (users small_db) of
              None \<Rightarrow> True | Some u \<Rightarrow> \<not> u_isBanned u)" by code_simp
  have p: "findPost 0 (posts small_db) = Some bobs_post" by code_simp
  have m: "moderateText toLowerCase_ascii ''just die'' = False" by code_simp
  have a: "p_authorToken bobs_post \<noteq> ''VOID-AAAA-AAAA-AAAA''" by code_simp
  have n: "next_id small_db = 2" "replies small_db = [alices_reply]"
    by (simp_all add: small_db_def)
  from k u p m a n
    reply_not_moderated [of "''VOID-AAAA-AAAA-AAAA''" small_db "''just die''" 0 bobs_post
      toLowerCase_ascii "''secret123''" 9 "''sad''" None]
  show ?thesis by simp
qed

section \<open>References to ids that do not exist\<close>

text \<open>
  C9. When no post (no reply) has the id that is reported, the report handler reads
  \<^verbatim>\<open>.reports\<close> of \<^verbatim>\<open>null\<close> and throws a TypeError instead of answering; the store
  is as it was. A reply to an id that no post has is answered with 404 and the store is
  as it was.
\<close>

theorem report_absent_id_throws:
  "(findPost i (posts s) = None \<longrightarrow> report usr (Some ''post'') i s = (Inl TypeError, s)) \<and>
   (ty \<noteq> Some ''post'' \<and> findReply i (replies s) = None \<longrightarrow>
      report usr ty i s = (Inl TypeError, s)) \<and>
   (findPost i (posts s) = None \<and> tx \<noteq> [] \<longrightarrow>
      createReply now usr (Some i) (Some tx) s = (Inr (404, ErrorBody ''Not found''), s))"
  by (simp add: report_def reportPost_absent reportReply_absent)

theorem report_absent_id_throws_witness:
  "report alice (Some ''post'') 7 small_db = (Inl TypeError, small_db) \<and>
   report alice (Some ''reply'') 7 small_db = (Inl TypeError, small_db) \<and>
   createReply 9 alice (Some 7) (Some ''hi'') small_db =
     (Inr (404, ErrorBody ''Not found''), small_db) \<and>
   handle toLowerCase_ascii ''secret123'' 9 (PostReport (Some ''VOID-AAAA-AAAA-AAAA'') (Some ''post'') 7) small_db =
     (Inl TypeError, small_db)"
proof -
  have p: "findPost 7 (posts small_db) = None" by code_simp
  have r: "findReply 7 (replies small_db) = None" by code_simp
  have h: "handle toLowerCase_ascii ''secret123'' 9 (PostReport (Some ''VOID-AAAA-AAAA-AAAA'') (Some ''post'') 7)
             small_db = (Inl TypeError, small_db)"
    by code_simp
  from p r h report_absent_id_throws [of 7 small_db alice "Some ''reply''" "''hi''" 9]
  show ?thesis by simp
qed

section \<open>Selection of a post\<close>

text \<open>
  C2, with the empty filter counted as no filter. A post that \<^verbatim>\<open>GET /api/post/random\<close> returns is a post of the store
  that is active, has fewer than three reports, is not by the requester, and, when the
  room filter is there and is neither the empty string nor ``all'', is in the room of
  the filter.
\<close>

theorem selectPost_eligible:
  "(getRandom rnd usr room s = (Inr (code, PostBody p), s') \<longrightarrow>
      p \<in> set (posts s) \<and> p_status p = ''active'' \<and> p_reports p < 3 \<and>
      p_authorToken p \<noteq> u_deviceToken usr \<and>
      (room = None \<or> room = Some [] \<or> room = Some ''all'' \<or> room = Some (p_room p))) \<and>
   (handle lc adminKey now (GetRandom (Some k) room rnd) s = (Inr (code, PostBody p), s') \<longrightarrow>
      p \<in> set (posts s) \<and> p_status p = ''active'' \<and> p_reports p < 3 \<and>
      p_authorToken p \<noteq> k \<and>
      (room = None \<or> room = Some [] \<or> room = Some ''all'' \<or> room = Some (p_room p)))"
proof (intro conjI impI)
  assume "getRandom rnd usr room s = (Inr (code, PostBody p), s')"
  then have "p \<in> set (candidates (u_deviceToken usr) room (posts s))"
    using getRandom_post pool_subset by blast
  then have m: "p \<in> set (posts s)" "matchStage (u_deviceToken usr) room p"
    by (simp_all add: candidates_match)
  from m(1) show "p \<in> set (posts s)" .
  from m(2) show "p_status p = ''active''" "p_reports p < 3" "p_authorToken p \<noteq> u_deviceToken usr"
    "room = None \<or> room = Some [] \<or> room = Some ''all'' \<or> room = Some (p_room p)"
    by (simp_all add: matchStage_iff)
next
  assume "handle lc adminKey now (GetRandom (Some k) room rnd) s = (Inr (code, PostBody p), s')"
  then have "p \<in> set (candidates k room (posts s))"
    using withAuth_post[of now k rnd room s code p s'] pool_subset by auto
  then have m: "p \<in> set (posts s)" "matchStage k room p"
    by (simp_all add: candidates_match)
  from m(1) show "p \<in> set (posts s)" .
  from m(2) show "p_status p = ''active''" "p_reports p < 3" "p_authorToken p \<noteq> k"
    "room = None \<or> room = Some [] \<or> room = Some ''all'' \<or> room = Some (p_room p)"
    by (simp_all add: matchStage_iff)
qed

theorem selectPost_eligible_witness:
  "handle toLowerCase_ascii ''secret123'' 9 (GetRandom (Some ''VOID-AAAA-AAAA-AAAA'') (Some ''love'') 3) small_db =
     (Inr (200, PostBody bobs_post), small_db) \<and>
   bobs_post \<in> set (posts small_db) \<and> p_status bobs_post = ''active'' \<and>
   p_reports bobs_post < 3 \<and> p_authorToken bobs_post \<noteq> ''VOID-AAAA-AAAA-AAAA'' \<and>
   Some ''love'' = Some (p_room bobs_post)"
proof -
  have h: "handle toLowerCase_ascii ''secret123'' 9 (GetRandom (Some ''VOID-AAAA-AAAA-AAAA'') (Some ''love'') 3)
             small_db = (Inr (200, PostBody bobs_post), small_db)"
    by code_simp
  have "Some ''love'' \<noteq> Some ''''" "Some ''love'' \<noteq> Some ''all''" by simp_all
  with h
    selectPost_eligible [of 3 alice "Some ''love''" small_db 200 bobs_post small_db
      toLowerCase_ascii "''secret123''" 9 "''VOID-AAAA-AAAA-AAAA''"]
  show ?thesis by simp
qed

text \<open>
  With the empty string as the room filter, the post returned is in the room general:
  the filter is neither missing nor ``all'', and the room of the post is not the filter.
\<close>

theorem selectPost_eligible_counterexample:
  "handle toLowerCase_ascii ''secret123'' 9 (GetRandom (Some ''VOID-AAAA-AAAA-AAAA'') (Some '''') 0)
     \<lparr>users = [],
      posts = [\<lparr>p_id = 0, p_mood = ''sad'', p_text = ''hello'', p_room = ''general'',
                p_authorToken = ''VOID-BBBB-BBBB-BBBB'', p_status = ''active'', p_reports = 0,
                p_replyCount = 0, p_createdAt = 1\<rparr>],
      replies = [], next_id = 1\<rparr> =
   (Inr (200, PostBody \<lparr>p_id = 0, p_mood = ''sad'', p_text = ''hello'', p_room = ''general'',
                p_authorToken = ''VOID-BBBB-BBBB-BBBB'', p_status = ''active'', p_reports = 0,
                p_replyCount = 0, p_createdAt = 1\<rparr>),
    \<lparr>users = [\<lparr>u_deviceToken = ''VOID-AAAA-AAAA-AAAA'', u_lightPoints = 0, u_isBanned = False,
                u_createdAt = 9\<rparr>],
      posts = [\<lparr>p_id = 0, p_mood = ''sad'', p_text = ''hello'', p_room = ''general'',
                p_authorToken = ''VOID-BBBB-BBBB-BBBB'', p_status = ''active'', p_reports = 0,
                p_replyCount = 0, p_createdAt = 1\<rparr>],
      replies = [], next_id = 1\<rparr>) \<and>
   Some '''' \<noteq> (None :: string option) \<and> Some '''' \<noteq> Some ''all'' \<and>
   p_room \<lparr>p_id = 0, p_mood = ''sad'', p_text = ''hello'', p_room = ''general'',
                p_authorToken = ''VOID-BBBB-BBBB-BBBB'', p_status = ''active'', p_reports = 0,
                p_replyCount = 0, p_createdAt = 1\<rparr> \<noteq> ''''"
  by code_simp

text \<open>
  C1, with the empty filter counted as no filter. The posts that pass the match stage
  are exactly the eligible ones. A post that \<^verbatim>\<open>GET /api/post/random\<close> returns is
  eligible and in the pool, for every requester, room filter and random choice. The pool
  has \<open>min M 50\<close> posts, where \<open>M\<close> is the number of eligible posts; its posts are among
  the eligible ones; it is in the order of fewer replies first and, among equals, newer
  first; and each of its posts comes before every eligible post that is left out, as do
  the first fifty of every other arrangement of the eligible posts in that order. Every
  post of the pool is returned for some random choice.
\<close>

theorem selectPost_pool_bound:
  "candidates token room ps = filter (eligible token room) ps \<and>
   (getRandom rnd usr room s = (Inr (code, PostBody p), s') \<longrightarrow>
      p \<in> set (pool (u_deviceToken usr) room (posts s)) \<and>
      p \<in> set (filter (eligible (u_deviceToken usr) room) (posts s))) \<and>
   (handle lc adminKey now (GetRandom (Some k) room rnd) s = (Inr (code, PostBody p), s') \<longrightarrow>
      p \<in> set (pool k room (posts s)) \<and> p \<in> set (filter (eligible k room) (posts s))) \<and>
   length (pool token room ps) = min (length (filter (eligible token room) ps)) 50 \<and>
   mset (pool token room ps) \<subseteq># mset (filter (eligible token room) ps) \<and>
   sorted_wrt comes_before (pool token room ps) \<and>
   (\<forall>q \<in> set (pool token room ps).
      \<forall>r \<in># mset (filter (eligible token room) ps) - mset (pool token room ps).
        comes_before q r) \<and>
   (\<forall>ys. mset ys = mset (filter (eligible token room) ps) \<and> sorted_wrt comes_before ys \<longrightarrow>
      (\<forall>q \<in> set (take 50 ys).
         \<forall>r \<in># mset (filter (eligible token room) ps) - mset (take 50 ys). comes_before q r)) \<and>
   (n < length (pool (u_deviceToken usr) room (posts s)) \<longrightarrow>
      getRandom n usr room s =
        (Inr (200, PostBody (pool (u_deviceToken usr) room (posts s) ! n)), s))"
proof -
  have me: "matchStage t rm = eligible t rm" for t rm
    unfolding matchStage_def roomCondition_def eligible_def
    by (rule ext) (auto split: option.splits)
  have ce: "candidates t rm qs = filter (eligible t rm) qs" for t rm qs
    by (simp add: candidates_def me)
  show ?thesis
  proof (intro impI conjI ballI allI)
    show "candidates token room ps = filter (eligible token room) ps"
      by (rule ce)
  next
    assume a: "getRandom rnd usr room s = (Inr (code, PostBody p), s')"
    then show "p \<in> set (pool (u_deviceToken usr) room (posts s))"
      by (auto simp: getRandom_def aggregate_def sample1_def split: list.splits if_splits)
    with pool_subset show "p \<in> set (filter (eligible (u_deviceToken usr) room) (posts s))"
      unfolding ce by blast
  next
    assume "handle lc adminKey now (GetRandom (Some k) room rnd) s = (Inr (code, PostBody p), s')"
    then show "p \<in> set (pool k room (posts s))"
      using withAuth_post [of now k rnd room s code p s'] by simp
    with pool_subset show "p \<in> set (filter (eligible k room) (posts s))"
      unfolding ce by blast
  next
    show "length (pool token room ps) = min (length (filter (eligible token room) ps)) 50"
      by (simp add: pool_def ce)
  next
    show "mset (pool token room ps) \<subseteq># mset (filter (eligible token room) ps)"
      using mset_pool [of token room ps] unfolding ce by simp
  next
    show "sorted_wrt comes_before (pool token room ps)"
      unfolding pool_def using sorted_candidates sorted_wrt_take by blast
  next
    fix q r
    assume q: "q \<in> set (pool token room ps)"
      and r: "r \<in># mset (filter (eligible token room) ps) - mset (pool token room ps)"
    from r have "r \<in> set (drop 50 (sort_key sortKey (candidates token room ps)))"
      using mset_pool [of token room ps] unfolding ce by simp
    with q show "comes_before q r" by (rule pool_before_rest)
  next
    fix ys q r
    assume "mset ys = mset (filter (eligible token room) ps) \<and> sorted_wrt comes_before ys"
      and "q \<in> set (take 50 ys)"
      and "r \<in># mset (filter (eligible token room) ps) - mset (take 50 ys)"
    then show "comes_before q r"
      using sorted_take_before_rest [of ys "filter (eligible token room) ps" q 50 r] by blast
  next
    assume "n < length (pool (u_deviceToken usr) room (posts s))"
    then show "getRandom n usr room s =
          (Inr (200, PostBody (pool (u_deviceToken usr) room (posts s) ! n)), s)"
      by (rule getRandom_draw)
  qed
qed

text \<open>
  Of 120 posts, 58 are eligible for the requester and the room life; the post returned
  is one of the fifty of the pool.
\<close>

theorem selectPost_pool_bound_witness:
  "getRandom 7 alice (Some ''life'') crowd_db = (Inr (200, PostBody (crowd ! 14)), crowd_db) \<and>
   length (posts crowd_db) = 120 \<and>
   length (filter (eligible (u_deviceToken alice) (Some ''life'')) (posts crowd_db)) = 58 \<and>
   crowd ! 14 \<in> set (pool (u_deviceToken alice) (Some ''life'') (posts crowd_db)) \<and>
   crowd ! 14 \<in> set (filter (eligible (u_deviceToken alice) (Some ''life'')) (posts crowd_db)) \<and>
   length (pool (u_deviceToken alice) (Some ''life'') (posts crowd_db)) = 50 \<and>
   sorted_wrt comes_before (pool (u_deviceToken alice) (Some ''life'') (posts crowd_db)) \<and>
   map p_id (pool (u_deviceToken alice) (Some ''life'') (posts crowd_db)) =
     [98, 84, 77, 56, 42, 28, 21, 14, 113, 106, 92, 78, 64, 57, 36, 29, 8, 114, 93, 86, 72, 44,
      16, 9, 2, 108, 101, 66, 52, 38, 24, 17, 116, 102, 88, 81, 74, 53, 46, 32, 18, 117, 96,
      89, 82, 68, 54, 33, 26, 12]"
proof -
  have g: "getRandom 7 alice (Some ''life'') crowd_db =
             (Inr (200, PostBody (crowd ! 14)), crowd_db)"
    by code_simp
  have t: "length (posts crowd_db) = 120" by code_simp
  have l: "length (filter (eligible (u_deviceToken alice) (Some ''life'')) (posts crowd_db)) = 58"
    by code_simp
  have i: "map p_id (pool (u_deviceToken alice) (Some ''life'') (posts crowd_db)) =
     [98, 84, 77, 56, 42, 28, 21, 14, 113, 106, 92, 78, 64, 57, 36, 29, 8, 114, 93, 86, 72, 44,
      16, 9, 2, 108, 101, 66, 52, 38, 24, 17, 116, 102, 88, 81, 74, 53, 46, 32, 18, 117, 96,
      89, 82, 68, 54, 33, 26, 12]"
    by code_simp
  from g t l i
    selectPost_pool_bound [of "u_deviceToken alice" "Some ''life''" "posts crowd_db" 7 alice
      crowd_db 200 "crowd ! 14" crowd_db toLowerCase_ascii "''secret123''" 9
      "''VOID-AAAA-AAAA-AAAA''" 0]
  show ?thesis by simp
qed

text \<open>
  With the empty string as the room filter, no post is eligible in the words of the
  specification (no post is in a room with the empty name), and yet a post is returned:
  it is not among the first \<open>min 0 50\<close> eligible posts.
\<close>

theorem selectPost_pool_bound_counterexample:
  "getRandom 0 alice (Some '''') small_db = (Inr (200, PostBody bobs_post), small_db) \<and>
   length (filter (spec_eligible (u_deviceToken alice) (Some '''')) (posts small_db)) = 0 \<and>
   bobs_post \<notin> set (take (min (length (filter (spec_eligible (u_deviceToken alice) (Some ''''))
                                            (posts small_db))) 50)
                        (sort_key sortKey (filter (spec_eligible (u_deviceToken alice) (Some ''''))
                                            (posts small_db))))"
  by code_simp

text \<open>
  C7, with the empty filter counted as no filter. When no post of the store is
  eligible, the answer is 204 without a body (a response, not a throw, and not a 4xx)
  and the store is as it was; when some post is eligible, the answer is 200 with a
  post. No post is eligible when the filter (not empty, not ``all'') names a room that
  no post of the store is in, which is so for every name outside the five rooms in every
  store that the server builds from the empty one, or when every post in the room of
  the filter is by the requester. Behind the middleware the answer is the same for a
  requester that is let through.
\<close>

theorem selectPost_empty:
  "(filter (eligible (u_deviceToken usr) room) (posts s) = [] \<longrightarrow>
      getRandom rnd usr room s = (Inr (204, NoBody), s)) \<and>
   (filter (eligible (u_deviceToken usr) room) (posts s) \<noteq> [] \<longrightarrow>
      (\<exists>p. getRandom rnd usr room s = (Inr (200, PostBody p), s))) \<and>
   (r \<noteq> [] \<and> r \<noteq> ''all'' \<and> (\<forall>p \<in> set (posts s). p_room p \<noteq> r) \<longrightarrow>
      getRandom rnd usr (Some r) s = (Inr (204, NoBody), s)) \<and>
   (r \<noteq> [] \<and> r \<noteq> ''all'' \<and> r \<notin> set validRooms \<and> rooms_inv s \<longrightarrow>
      getRandom rnd usr (Some r) s = (Inr (204, NoBody), s)) \<and>
   (r \<noteq> [] \<and> r \<noteq> ''all'' \<and>
    (\<forall>p \<in> set (posts s). p_room p = r \<longrightarrow> p_authorToken p = u_deviceToken usr) \<longrightarrow>
      getRandom rnd usr (Some r) s = (Inr (204, NoBody), s)) \<and>
   (keyPattern_test k \<and>
    (case findUser k (users s) of None \<Rightarrow> True | Some u \<Rightarrow> \<not> u_isBanned u) \<and>
    filter (eligible k room) (posts s) = [] \<longrightarrow>
      fst (handle lc adminKey now (GetRandom (Some k) room rnd) s) = Inr (204, NoBody)) \<and>
   rooms_inv (run lc adminKey reqs empty_db)"
proof -
  have me: "matchStage t rm = eligible t rm" for t rm
    unfolding matchStage_def roomCondition_def eligible_def
    by (rule ext) (auto split: option.splits)
  have ce: "candidates t rm qs = filter (eligible t rm) qs" for t rm qs
    by (simp add: candidates_def me)
  show ?thesis
  proof (intro conjI impI)
    assume "filter (eligible (u_deviceToken usr) room) (posts s) = []"
    then show "getRandom rnd usr room s = (Inr (204, NoBody), s)"
      by (simp add: getRandom_def aggregate_def sample1_def pool_empty ce)
  next
    assume "filter (eligible (u_deviceToken usr) room) (posts s) \<noteq> []"
    then show "\<exists>p. getRandom rnd usr room s = (Inr (200, PostBody p), s)"
      by (simp add: getRandom_def aggregate_def sample1_def pool_empty ce)
  next
    assume "r \<noteq> [] \<and> r \<noteq> ''all'' \<and> (\<forall>p \<in> set (posts s). p_room p \<noteq> r)"
    then have "filter (eligible (u_deviceToken usr) (Some r)) (posts s) = []"
      using eligible_unknown_room by blast
    then show "getRandom rnd usr (Some r) s = (Inr (204, NoBody), s)"
      using getRandom_empty [of usr "Some r" s rnd] by (simp add: ce)
  next
    assume a: "r \<noteq> [] \<and> r \<noteq> ''all'' \<and> r \<notin> set validRooms \<and> rooms_inv s"
    then have "\<forall>p \<in> set (posts s). p_room p \<noteq> r" using rooms_inv_unknown by blast
    with a have "filter (eligible (u_deviceToken usr) (Some r)) (posts s) = []"
      using eligible_unknown_room by blast
    then show "getRandom rnd usr (Some r) s = (Inr (204, NoBody), s)"
      using getRandom_empty [of usr "Some r" s rnd] by (simp add: ce)
  next
    assume "r \<noteq> [] \<and> r \<noteq> ''all'' \<and>
      (\<forall>p \<in> set (posts s). p_room p = r \<longrightarrow> p_authorToken p = u_deviceToken usr)"
    then have "filter (eligible (u_deviceToken usr) (Some r)) (posts s) = []"
      using eligible_sole_author by blast
    then show "getRandom rnd usr (Some r) s = (Inr (204, NoBody), s)"
      using getRandom_empty [of usr "Some r" s rnd] by (simp add: ce)
  next
    assume "keyPattern_test k \<and>
      (case findUser k (users s) of None \<Rightarrow> True | Some u \<Rightarrow> \<not> u_isBanned u) \<and>
      filter (eligible k room) (posts s) = []"
    then show "fst (handle lc adminKey now (GetRandom (Some k) room rnd) s) = Inr (204, NoBody)"
      using handle_GetRandom_empty [of k s room lc adminKey now rnd]
      by (simp add: ce)
  next
    show "rooms_inv (run lc adminKey reqs empty_db)"
      by (simp add: rooms_inv_run rooms_inv_empty)
  qed
qed

theorem selectPost_empty_witness:
  "getRandom 3 alice (Some ''career'') small_db = (Inr (204, NoBody), small_db) \<and>
   getRandom 3 \<lparr>u_deviceToken = ''VOID-BBBB-BBBB-BBBB'', u_lightPoints = 1, u_isBanned = False,
                u_createdAt = 2\<rparr> (Some ''love'') small_db = (Inr (204, NoBody), small_db) \<and>
   (\<exists>p. getRandom 3 alice (Some ''love'') small_db = (Inr (200, PostBody p), small_db)) \<and>
   fst (handle toLowerCase_ascii ''secret123'' 9
          (GetRandom (Some ''VOID-BBBB-BBBB-BBBB'') (Some ''love'') 3) small_db) =
     Inr (204, NoBody)"
proof -
  have 0: "rooms_inv small_db" "''career'' \<notin> set validRooms" by code_simp+
  have 2: "\<forall>p \<in> set (posts small_db). p_room p = ''love'' \<longrightarrow>
             p_authorToken p = u_deviceToken \<lparr>u_deviceToken = ''VOID-BBBB-BBBB-BBBB'',
               u_lightPoints = 1, u_isBanned = False, u_createdAt = 2\<rparr>"
    by (simp add: small_db_def bobs_post_def)
  have 3: "filter (eligible (u_deviceToken alice) (Some ''love'')) (posts small_db) \<noteq> []"
    by code_simp
  have 4: "''career'' \<noteq> []" "''career'' \<noteq> ''all''" "''love'' \<noteq> []" "''love'' \<noteq> ''all''"
    by simp_all
  have 5: "keyPattern_test ''VOID-BBBB-BBBB-BBBB''"
    "case findUser ''VOID-BBBB-BBBB-BBBB'' (users small_db) of
       None \<Rightarrow> True | Some u \<Rightarrow> \<not> u_isBanned u"
    "filter (eligible ''VOID-BBBB-BBBB-BBBB'' (Some ''love'')) (posts small_db) = []"
    by code_simp+
  from 0 4 selectPost_empty [of alice "Some ''love''" small_db 3 "''career''"]
  have a: "getRandom 3 alice (Some ''career'') small_db = (Inr (204, NoBody), small_db)"
    by blast
  from 2 4 selectPost_empty [of "\<lparr>u_deviceToken = ''VOID-BBBB-BBBB-BBBB'',
               u_lightPoints = 1, u_isBanned = False, u_createdAt = 2\<rparr>" "Some ''love''" small_db 3 "''love''"]
  have b: "getRandom 3 \<lparr>u_deviceToken = ''VOID-BBBB-BBBB-BBBB'', u_lightPoints = 1, u_isBanned = False,
                u_createdAt = 2\<rparr> (Some ''love'') small_db = (Inr (204, NoBody), small_db)"
    by blast
  from 3 selectPost_empty [of alice "Some ''love''" small_db 3 "''career''"]
  have c: "\<exists>p. getRandom 3 alice (Some ''love'') small_db = (Inr (200, PostBody p), small_db)"
    by blast
  from 5 selectPost_empty [of alice "Some ''love''" small_db 3 "''career''"
      "''VOID-BBBB-BBBB-BBBB''" toLowerCase_ascii "''secret123''" 9]
  have d: "fst (handle toLowerCase_ascii ''secret123'' 9
          (GetRandom (Some ''VOID-BBBB-BBBB-BBBB'') (Some ''love'') 3) small_db) =
     Inr (204, NoBody)"
    by blast
  have e: "getRandom 3 alice (Some ''career'') small_db = (Inr (204, NoBody), small_db)"
    "getRandom 3 alice (Some ''love'') small_db = (Inr (200, PostBody bobs_post), small_db)"
    by code_simp+
  from a b c d e show ?thesis by blast
qed

text \<open>
  With the empty string as the room filter, a name outside the five rooms that no post
  of the store carries, no post is eligible in the words of the specification, and the
  answer is 200 with a post.
\<close>

theorem selectPost_empty_counterexample:
  "fst (handle toLowerCase_ascii ''secret123'' 9
          (GetRandom (Some ''VOID-AAAA-AAAA-AAAA'') (Some '''') 3) small_db) =
     Inr (200, PostBody bobs_post) \<and>
   filter (spec_eligible ''VOID-AAAA-AAAA-AAAA'' (Some '''')) (posts small_db) = [] \<and>
   '''' \<notin> set validRooms \<and>
   filter (\<lambda>p. p_room p = '''') (posts small_db) = []"
  by code_simp

section \<open>Reports\<close>

text \<open>
  C3. A report on an existing post or reply adds exactly one to its reports, and
  afterwards the entity is hidden if and only if the new count is three or more (in a
  store where hidden entities have three reports or more, which every store the server
  reaches from the empty one is). A hidden entity stays hidden when it is reported
  again, and below three reports the status is left as it was. A fresh entity has its
  status unchanged after two reports and is hidden after the third.
\<close>

theorem report_contract:
  "(hidden_inv s \<and> findPost i (posts s) = Some p \<longrightarrow>
      (\<exists>p'. fst (report usr (Some ''post'') i s) = Inr (200, MessageBody ''Reported.'') \<and>
            findPost i (posts (snd (report usr (Some ''post'') i s))) = Some p' \<and>
            p_reports p' = p_reports p + 1 \<and>
            (p_status p' = ''hidden'' \<longleftrightarrow> 3 \<le> p_reports p') \<and>
            (p_status p = ''hidden'' \<longrightarrow> p_status p' = ''hidden'') \<and>
            (p_reports p' < 3 \<longrightarrow> p_status p' = p_status p) \<and>
            hidden_inv (snd (report usr (Some ''post'') i s)))) \<and>
   (hidden_inv s \<and> ty \<noteq> Some ''post'' \<and> findReply j (replies s) = Some r \<longrightarrow>
      (\<exists>r'. fst (report usr ty j s) = Inr (200, MessageBody ''Reported.'') \<and>
            findReply j (replies (snd (report usr ty j s))) = Some r' \<and>
            r_reports r' = r_reports r + 1 \<and>
            (r_status r' = ''hidden'' \<longleftrightarrow> 3 \<le> r_reports r') \<and>
            (r_status r = ''hidden'' \<longrightarrow> r_status r' = ''hidden'') \<and>
            (r_reports r' < 3 \<longrightarrow> r_status r' = r_status r) \<and>
            hidden_inv (snd (report usr ty j s)))) \<and>
   (findPost i (posts s) = Some p \<and> p_reports p = 0 \<and> p_status p = ''active'' \<longrightarrow>
      findPost i (posts (reportTimes 2 usr (Some ''post'') i s)) =
        Some (p\<lparr>p_reports := 2\<rparr>) \<and>
      findPost i (posts (reportTimes 3 usr (Some ''post'') i s)) =
        Some (p\<lparr>p_reports := 3, p_status := ''hidden''\<rparr>)) \<and>
   (ty \<noteq> Some ''post'' \<and> findReply j (replies s) = Some r \<and> r_reports r = 0 \<and>
    r_status r = ''visible'' \<longrightarrow>
      findReply j (replies (reportTimes 2 usr ty j s)) = Some (r\<lparr>r_reports := 2\<rparr>) \<and>
      findReply j (replies (reportTimes 3 usr ty j s)) =
        Some (r\<lparr>r_reports := 3, r_status := ''hidden''\<rparr>)) \<and>
   hidden_inv (run lc adminKey reqs empty_db)"
proof (intro conjI impI)
  assume a: "hidden_inv s \<and> findPost i (posts s) = Some p"
  let ?p' = "p\<lparr>p_reports := p_reports p + 1,
               p_status := (if 3 \<le> p_reports p + 1 then ''hidden'' else p_status p)\<rparr>"
  from a have inv: "p_status p = ''hidden'' \<longrightarrow> 3 \<le> p_reports p"
    using hidden_inv_post by blast
  from a have "fst (report usr (Some ''post'') i s) = Inr (200, MessageBody ''Reported.'')"
    and "findPost i (posts (snd (report usr (Some ''post'') i s))) = Some ?p'"
    by (simp_all add: report_def reportPost_present)
  moreover have "p_reports ?p' = p_reports p + 1" by simp
  moreover from inv have "p_status ?p' = ''hidden'' \<longleftrightarrow> 3 \<le> p_reports ?p'" by auto
  moreover from inv have "p_status p = ''hidden'' \<longrightarrow> p_status ?p' = ''hidden''" by simp
  moreover have "p_reports ?p' < 3 \<longrightarrow> p_status ?p' = p_status p" by simp
  moreover from a have "hidden_inv (snd (report usr (Some ''post'') i s))"
    by (simp add: hidden_inv_report)
  ultimately show "\<exists>p'. fst (report usr (Some ''post'') i s) = Inr (200, MessageBody ''Reported.'') \<and>
            findPost i (posts (snd (report usr (Some ''post'') i s))) = Some p' \<and>
            p_reports p' = p_reports p + 1 \<and>
            (p_status p' = ''hidden'' \<longleftrightarrow> 3 \<le> p_reports p') \<and>
            (p_status p = ''hidden'' \<longrightarrow> p_status p' = ''hidden'') \<and>
            (p_reports p' < 3 \<longrightarrow> p_status p' = p_status p) \<and>
            hidden_inv (snd (report usr (Some ''post'') i s))"
    by blast
next
  assume a: "hidden_inv s \<and> ty \<noteq> Some ''post'' \<and> findReply j (replies s) = Some r"
  let ?r' = "r\<lparr>r_reports := r_reports r + 1,
               r_status := (if 3 \<le> r_reports r + 1 then ''hidden'' else r_status r)\<rparr>"
  from a have inv: "r_status r = ''hidden'' \<longrightarrow> 3 \<le> r_reports r"
    using hidden_inv_reply by blast
  from a have "fst (report usr ty j s) = Inr (200, MessageBody ''Reported.'')"
    and "findReply j (replies (snd (report usr ty j s))) = Some ?r'"
    by (simp_all add: report_def reportReply_present)
  moreover have "r_reports ?r' = r_reports r + 1" by simp
  moreover from inv have "r_status ?r' = ''hidden'' \<longleftrightarrow> 3 \<le> r_reports ?r'" by auto
  moreover from inv have "r_status r = ''hidden'' \<longrightarrow> r_status ?r' = ''hidden''" by simp
  moreover have "r_reports ?r' < 3 \<longrightarrow> r_status ?r' = r_status r" by simp
  moreover from a have "hidden_inv (snd (report usr ty j s))"
    by (simp add: hidden_inv_report)
  ultimately show "\<exists>r'. fst (report usr ty j s) = Inr (200, MessageBody ''Reported.'') \<and>
            findReply j (replies (snd (report usr ty j s))) = Some r' \<and>
            r_reports r' = r_reports r + 1 \<and>
            (r_status r' = ''hidden'' \<longleftrightarrow> 3 \<le> r_reports r') \<and>
            (r_status r = ''hidden'' \<longrightarrow> r_status r' = ''hidden'') \<and>
            (r_reports r' < 3 \<longrightarrow> r_status r' = r_status r) \<and>
            hidden_inv (snd (report usr ty j s))"
    by blast
next
  assume a: "findPost i (posts s) = Some p \<and> p_reports p = 0 \<and> p_status p = ''active''"
  then show "findPost i (posts (reportTimes 2 usr (Some ''post'') i s)) = Some (p\<lparr>p_reports := 2\<rparr>)"
    using reportTimes_post [of i s p 2 usr] by simp
  from a show "findPost i (posts (reportTimes 3 usr (Some ''post'') i s)) =
        Some (p\<lparr>p_reports := 3, p_status := ''hidden''\<rparr>)"
    using reportTimes_post [of i s p 3 usr] by simp
next
  assume a: "ty \<noteq> Some ''post'' \<and> findReply j (replies s) = Some r \<and> r_reports r = 0 \<and>
    r_status r = ''visible''"
  then show "findReply j (replies (reportTimes 2 usr ty j s)) = Some (r\<lparr>r_reports := 2\<rparr>)"
    using reportTimes_reply [of ty j s r 2 usr] by simp
  from a show "findReply j (replies (reportTimes 3 usr ty j s)) =
        Some (r\<lparr>r_reports := 3, r_status := ''hidden''\<rparr>)"
    using reportTimes_reply [of ty j s r 3 usr] by simp
next
  show "hidden_inv (run lc adminKey reqs empty_db)"
    by (simp add: hidden_inv_run hidden_inv_empty)
qed

theorem report_contract_witness:
  "hidden_inv small_db \<and>
   (\<exists>p'. fst (report alice (Some ''post'') 0 small_db) = Inr (200, MessageBody ''Reported.'') \<and>
         findPost 0 (posts (snd (report alice (Some ''post'') 0 small_db))) = Some p' \<and>
         p_reports p' = 1 \<and> p_status p' = ''active'') \<and>
   findPost 0 (posts (reportTimes 2 alice (Some ''post'') 0 small_db)) =
     Some (bobs_post\<lparr>p_reports := 2\<rparr>) \<and>
   findPost 0 (posts (reportTimes 3 alice (Some ''post'') 0 small_db)) =
     Some (bobs_post\<lparr>p_reports := 3, p_status := ''hidden''\<rparr>) \<and>
   findReply 1 (replies (reportTimes 3 alice (Some ''reply'') 1 small_db)) =
     Some (alices_reply\<lparr>r_reports := 3, r_status := ''hidden''\<rparr>)"
proof -
  have i: "hidden_inv small_db" by code_simp
  have p: "findPost 0 (posts small_db) = Some bobs_post" by code_simp
  have r: "findReply 1 (replies small_db) = Some alices_reply" by code_simp
  have f: "p_reports bobs_post = 0" "p_status bobs_post = ''active''"
    "r_reports alices_reply = 0" "r_status alices_reply = ''visible''"
    by (simp_all add: bobs_post_def alices_reply_def)
  have t: "Some ''reply'' \<noteq> Some ''post''" by simp
  note c = report_contract [of small_db 0 bobs_post alice "Some ''reply''" 1 alices_reply
      toLowerCase_ascii "''secret123''" "[]"]
  from c i p obtain p' where
    "fst (report alice (Some ''post'') 0 small_db) = Inr (200, MessageBody ''Reported.'')"
    "findPost 0 (posts (snd (report alice (Some ''post'') 0 small_db))) = Some p'"
    "p_reports p' = p_reports bobs_post + 1"
    "p_reports p' < 3 \<longrightarrow> p_status p' = p_status bobs_post"
    by blast
  with f have 1: "\<exists>p'. fst (report alice (Some ''post'') 0 small_db) = Inr (200, MessageBody ''Reported.'') \<and>
         findPost 0 (posts (snd (report alice (Some ''post'') 0 small_db))) = Some p' \<and>
         p_reports p' = 1 \<and> p_status p' = ''active''"
    by auto
  from c p f have 2: "findPost 0 (posts (reportTimes 2 alice (Some ''post'') 0 small_db)) =
     Some (bobs_post\<lparr>p_reports := 2\<rparr>)"
    "findPost 0 (posts (reportTimes 3 alice (Some ''post'') 0 small_db)) =
     Some (bobs_post\<lparr>p_reports := 3, p_status := ''hidden''\<rparr>)"
    by blast+
  from c r f t have 3: "findReply 1 (replies (reportTimes 3 alice (Some ''reply'') 1 small_db)) =
     Some (alices_reply\<lparr>r_reports := 3, r_status := ''hidden''\<rparr>)"
    by blast
  from i 1 2 3 show ?thesis by blast
qed

end
